theory Spec2Isabelle
  imports Complex_Main
begin

section \<open>Python values and exceptions\<close>

text \<open>
  The services are Python. An exception is a value of \<open>py_error\<close>; a computation that
  may raise returns \<open>py_error + 'a\<close> with \<open>Inl\<close> for the exception, and a
  \<open>try ... except Exception\<close> block is a case distinction on that sum.
  Python floats are idealised as reals: a number of the model is finite (NaN and the
  infinities are not values of \<open>pyval\<close>), arithmetic is exact, and \<open>round(x, 2)\<close> rounds
  the exact value, half to even. A float computation can differ from the model in the
  last digit that \<open>round\<close> keeps, and it propagates NaN where the model has no value.
\<close>

datatype py_error = TypeError | ValueError | RuntimeError

definition bindE :: "py_error + 'a \<Rightarrow> ('a \<Rightarrow> py_error + 'b) \<Rightarrow> py_error + 'b" where
  "bindE m f = (case m of Inl e \<Rightarrow> Inl e | Inr x \<Rightarrow> f x)"

text \<open>
  A value stored in a metrics dictionary: a number, or \<open>NoneV\<close> for Python's \<open>None\<close>,
  on which every arithmetic operation and ordering comparison raises \<open>TypeError\<close>.
\<close>

datatype pyval = Num real | NoneV

definition py_truthy :: "pyval \<Rightarrow> bool" where
  "py_truthy v = (case v of Num x \<Rightarrow> x \<noteq> 0 | NoneV \<Rightarrow> False)"

definition py_or :: "pyval \<Rightarrow> pyval \<Rightarrow> pyval" where
  "py_or a b = (if py_truthy a then a else b)"

definition py_num :: "pyval \<Rightarrow> py_error + real" where
  "py_num v = (case v of Num x \<Rightarrow> Inr x | NoneV \<Rightarrow> Inl TypeError)"

definition py_add :: "pyval \<Rightarrow> pyval \<Rightarrow> py_error + pyval" where
  "py_add a b = bindE (py_num a) (\<lambda>x. bindE (py_num b) (\<lambda>y. Inr (Num (x + y))))"

definition py_sub :: "pyval \<Rightarrow> pyval \<Rightarrow> py_error + pyval" where
  "py_sub a b = bindE (py_num a) (\<lambda>x. bindE (py_num b) (\<lambda>y. Inr (Num (x - y))))"

definition py_log10 :: "real \<Rightarrow> py_error + real" where
  \<comment> \<open>\<open>math.log10\<close> raises \<open>ValueError\<close> outside its domain\<close>
  "py_log10 x = (if x \<le> 0 then Inl ValueError else Inr (log 10 x))"

definition round_half_even :: "real \<Rightarrow> int" where
  "round_half_even y =
     (let f = \<lfloor>y\<rfloor>; d = y - of_int f
      in if d < 1 / 2 then f else if 1 / 2 < d then f + 1
         else if even f then f else f + 1)"

definition py_round2 :: "real \<Rightarrow> real" where
  \<comment> \<open>\<open>round(x, 2)\<close>\<close>
  "py_round2 x = of_int (round_half_even (x * 100)) / 100"


section \<open>Virality scoring (\<open>services/virality_score.py\<close>)\<close>

text \<open>
  The metrics dictionary: \<open>None\<close> in a field means that the key is absent, so that
  \<open>metrics.get(key, default)\<close> is \<open>get_or\<close>.
\<close>

record metrics =
  k_likes :: "pyval option"
  k_comments :: "pyval option"
  k_shares :: "pyval option"
  k_impressions :: "pyval option"
  k_views :: "pyval option"
  k_historical_engagement :: "pyval option"
  k_time_diff_minutes :: "pyval option"
  k_sentiment :: "pyval option"
  k_toxicity :: "pyval option"
  k_language_confidence :: "pyval option"
  k_is_spam :: "bool option"
  k_region :: "string option"
  k_is_sa :: "bool option"

definition get_or :: "'a option \<Rightarrow> 'a \<Rightarrow> 'a" where
  "get_or field dflt = (case field of None \<Rightarrow> dflt | Some v \<Rightarrow> v)"

record ViralityMetrics =
  engagement_rate :: real
  velocity :: real
  sentiment_strength :: real
  quality_multiplier :: real
  regional_weight :: real
  virality_score :: real
  formula :: string

text \<open>\<open>calculate_engagement_rate(self, likes, shares, comments, views, impressions)\<close>\<close>

definition engagement_rate_body ::
  "pyval \<Rightarrow> pyval \<Rightarrow> pyval \<Rightarrow> pyval \<Rightarrow> pyval \<Rightarrow> py_error + real" where
  "engagement_rate_body likes shares comments views impressions =
     bindE (py_add likes comments) (\<lambda>lc.
     bindE (py_add lc shares) (\<lambda>total_engagement.
     bindE (py_num (py_or (py_or impressions views) (Num 1))) (\<lambda>iv.
     let effective_impressions = max iv 1 in
     bindE (py_num total_engagement) (\<lambda>te.
     let raw_rate = (te / effective_impressions) * 100 in
     bindE (py_log10 (raw_rate + 1)) (\<lambda>lg.
     let normalized_rate = min (lg * 20) 100 in
     Inr (py_round2 normalized_rate))))))"

definition calculate_engagement_rate ::
  "pyval \<Rightarrow> pyval \<Rightarrow> pyval \<Rightarrow> pyval \<Rightarrow> pyval \<Rightarrow> real" where
  "calculate_engagement_rate likes shares comments views impressions =
     (case engagement_rate_body likes shares comments views impressions of
        Inr r \<Rightarrow> r
      | Inl e \<Rightarrow> 0)"

text \<open>
  A call binds the positional arguments to the five required parameters (after
  \<open>self\<close>); with any other number of arguments Python raises \<open>TypeError\<close> before the
  body runs.
\<close>

definition call_calculate_engagement_rate :: "pyval list \<Rightarrow> py_error + real" where
  "call_calculate_engagement_rate args =
     (case args of
        [likes, shares, comments, views, impressions] \<Rightarrow>
          Inr (calculate_engagement_rate likes shares comments views impressions)
      | _ \<Rightarrow> Inl TypeError)"

definition py_le0 :: "pyval \<Rightarrow> py_error + bool" where
  \<comment> \<open>\<open>v <= 0\<close>\<close>
  "py_le0 v = bindE (py_num v) (\<lambda>x. Inr (x \<le> 0))"

definition velocity_body :: "pyval \<Rightarrow> pyval \<Rightarrow> pyval \<Rightarrow> py_error + real" where
  "velocity_body current_engagement previous_engagement time_minutes =
     bindE (py_le0 time_minutes) (\<lambda>t0.
     if t0 then Inr 0 else
     bindE (py_sub current_engagement previous_engagement) (\<lambda>engagement_change.
     bindE (py_le0 engagement_change) (\<lambda>c0.
     if c0 then Inr 0 else
     bindE (py_num engagement_change) (\<lambda>ec.
     bindE (py_num time_minutes) (\<lambda>tm.
     let raw_velocity = ec / tm in
     bindE (py_log10 (raw_velocity + 1)) (\<lambda>lg.
     let normalized_velocity = min (lg * 15) 100 in
     Inr (py_round2 normalized_velocity)))))))"

definition calculate_velocity :: "pyval \<Rightarrow> pyval \<Rightarrow> pyval \<Rightarrow> real" where
  "calculate_velocity current_engagement previous_engagement time_minutes =
     (case velocity_body current_engagement previous_engagement time_minutes of
        Inr r \<Rightarrow> r
      | Inl e \<Rightarrow> 0)"

definition calculate_sentiment_strength :: "pyval \<Rightarrow> real" where
  "calculate_sentiment_strength sentiment_score =
     (case bindE (py_num sentiment_score) (\<lambda>s.
             let strength = \<bar>s\<bar> * 100 in Inr (py_round2 (min strength 100))) of
        Inr r \<Rightarrow> r
      | Inl e \<Rightarrow> 0)"

definition quality_multiplier_body :: "pyval \<Rightarrow> pyval \<Rightarrow> bool \<Rightarrow> py_error + real" where
  "quality_multiplier_body toxicity language_confidence is_spam =
     bindE (py_num toxicity) (\<lambda>tox.
     let multiplier = 1;
         multiplier = (if tox < 3 / 10 then multiplier + 2 / 10
                       else if 7 / 10 < tox then multiplier - 5 / 10
                       else multiplier) in
     bindE (py_num language_confidence) (\<lambda>lc.
     let multiplier = (if 8 / 10 < lc then multiplier + 1 / 10 else multiplier);
         multiplier = (if is_spam then multiplier - 8 / 10 else multiplier) in
     Inr (py_round2 (max (1 / 10) (min multiplier (15 / 10))))))"

definition calculate_quality_multiplier :: "pyval \<Rightarrow> pyval \<Rightarrow> bool \<Rightarrow> real" where
  "calculate_quality_multiplier toxicity language_confidence is_spam =
     (case quality_multiplier_body toxicity language_confidence is_spam of
        Inr r \<Rightarrow> r
      | Inl e \<Rightarrow> 5 / 10)"

definition high_engagement_regions :: "string list" where
  "high_engagement_regions = [''GP'', ''WC'', ''KZN'']"

definition calculate_regional_weight :: "string option \<Rightarrow> bool \<Rightarrow> real" where
  "calculate_regional_weight region is_sa =
     (let weight = 1;
          weight = (if is_sa then weight + 3 / 10 else weight);
          weight = (case region of
                      Some r \<Rightarrow> if r \<in> set high_engagement_regions
                                then weight + 1 / 10 else weight
                    | None \<Rightarrow> weight)
      in py_round2 weight)"

text \<open>
  \<open>calculate_virality_score\<close>: the body of the \<open>try\<close> block, then the function with
  its \<open>except Exception\<close> branch. The call on line 59 passes two arguments,
  \<open>self.calculate_engagement_rate(engagement, impressions)\<close>.
\<close>

definition virality_score_body :: "metrics \<Rightarrow> py_error + ViralityMetrics" where
  "virality_score_body m =
     bindE (py_add (get_or (k_likes m) (Num 0)) (get_or (k_comments m) (Num 0))) (\<lambda>lc.
     bindE (py_add lc (get_or (k_shares m) (Num 0))) (\<lambda>engagement.
     let impressions = py_or (get_or (k_impressions m) (get_or (k_views m) (Num 1))) (Num 1);
         historical_engagement = get_or (k_historical_engagement m) (Num 0);
         time_diff_minutes = get_or (k_time_diff_minutes m) (Num 60);
         sentiment_score = get_or (k_sentiment m) (Num 0);
         toxicity = get_or (k_toxicity m) (Num 0);
         language_confidence = get_or (k_language_confidence m) (Num 0);
         is_spam = get_or (k_is_spam m) False;
         region = k_region m;
         is_sa = get_or (k_is_sa m) False in
     bindE (call_calculate_engagement_rate [engagement, impressions]) (\<lambda>E.
     let V = calculate_velocity engagement historical_engagement time_diff_minutes;
         S = calculate_sentiment_strength sentiment_score;
         Q = calculate_quality_multiplier toxicity language_confidence is_spam;
         R = calculate_regional_weight region is_sa;
         score = (E + V + S) * Q * R;
         score = min score 100 in
     Inr \<lparr>engagement_rate = E, velocity = V, sentiment_strength = S,
          quality_multiplier = Q, regional_weight = R,
          virality_score = score, formula = ''(E + V + S) * Q * R''\<rparr>)))"

definition zero_score :: ViralityMetrics where
  "zero_score =
     \<lparr>engagement_rate = 0, velocity = 0, sentiment_strength = 0,
      quality_multiplier = 1 / 10, regional_weight = 1,
      virality_score = 0, formula = ''(E + V + S) * Q * R''\<rparr>"

definition calculate_virality_score :: "metrics \<Rightarrow> ViralityMetrics" where
  "calculate_virality_score m =
     (case virality_score_body m of Inr vm \<Rightarrow> vm | Inl e \<Rightarrow> zero_score)"

text \<open>
  The formula of the specification, for comparison with the code: \<open>E\<close> as the
  specification words it, the other components as the code computes them.
\<close>

definition spec_engagement :: "real \<Rightarrow> real \<Rightarrow> real \<Rightarrow> real \<Rightarrow> real" where
  "spec_engagement l c s impressions_or_views =
     (let raw = (l + c + s) / max impressions_or_views 1 * 100
      in min (log 10 (raw + 1) * 20) 100)"

definition spec_virality_score :: "real \<Rightarrow> real \<Rightarrow> real \<Rightarrow> real \<Rightarrow> real \<Rightarrow> real" where
  "spec_virality_score E V S Q R = min ((E + V + S) * Q * R) 100"

definition example_post_metrics :: metrics where
  "example_post_metrics =
     \<lparr>k_likes = Some (Num 50), k_comments = Some (Num 2), k_shares = Some (Num 5),
      k_impressions = None, k_views = Some (Num 1000),
      k_historical_engagement = None, k_time_diff_minutes = None, k_sentiment = None,
      k_toxicity = None, k_language_confidence = None, k_is_spam = None,
      k_region = None, k_is_sa = None\<rparr>"


section \<open>Text cleaning (\<open>services/text_cleaner.py\<close>)\<close>

text \<open>
  A Python \<open>str\<close> is a list of Unicode code points. \<open>py_str\<close> writes an ASCII literal.
\<close>

type_synonym uchar = nat
type_synonym ustr = "nat list"

definition py_str :: "string \<Rightarrow> ustr" where
  "py_str s = map of_char s"

definition is_ascii_upper :: "uchar \<Rightarrow> bool" where
  "is_ascii_upper c = (65 \<le> c \<and> c \<le> 90)"

definition is_ascii_lower :: "uchar \<Rightarrow> bool" where
  "is_ascii_lower c = (97 \<le> c \<and> c \<le> 122)"

definition is_ascii_digit :: "uchar \<Rightarrow> bool" where
  "is_ascii_digit c = (48 \<le> c \<and> c \<le> 57)"

definition is_ascii_alnum :: "uchar \<Rightarrow> bool" where
  "is_ascii_alnum c = (is_ascii_lower c \<or> is_ascii_upper c \<or> is_ascii_digit c)"

definition is_space :: "uchar \<Rightarrow> bool" where
  \<comment> \<open>\<open>str.isspace\<close>, the class \<open>\s\<close> of \<open>re\<close> on \<open>str\<close> patterns, and what
      \<open>str.strip()\<close> and \<open>str.split()\<close> treat as whitespace\<close>
  "is_space c =
     ((9 \<le> c \<and> c \<le> 13) \<or> (28 \<le> c \<and> c \<le> 32) \<or> c = 133 \<or> c = 160 \<or> c = 5760
      \<or> (8192 \<le> c \<and> c \<le> 8202) \<or> c = 8232 \<or> c = 8233 \<or> c = 8239 \<or> c = 8287
      \<or> c = 12288)"

text \<open>
  What the cleaner takes from outside the repository: Beautiful Soup's
  \<open>BeautifulSoup(text, 'html.parser').get_text()\<close> (which may raise), the \<open>emoji\<close>
  package, the transliteration table of \<open>unidecode\<close> for the code points from 128
  on, and the Unicode character database behind \<open>\w\<close> and \<open>str.isupper\<close> for those
  code points.
\<close>

record text_env =
  bs_get_text :: "ustr \<Rightarrow> py_error + ustr"
  emoji_demojize :: "ustr \<Rightarrow> ustr"
  emoji_list_len :: "ustr \<Rightarrow> nat"
  unidecode_table :: "uchar \<Rightarrow> ustr"
  uc_isalnum :: "uchar \<Rightarrow> bool"
  uc_isupper :: "uchar \<Rightarrow> bool"

definition is_word :: "text_env \<Rightarrow> uchar \<Rightarrow> bool" where
  \<comment> \<open>the class \<open>\w\<close>\<close>
  "is_word env c = (if c < 128 then is_ascii_alnum c \<or> c = 95 else uc_isalnum env c)"

definition py_isupper :: "text_env \<Rightarrow> uchar \<Rightarrow> bool" where
  "py_isupper env c = (if c < 128 then is_ascii_upper c else uc_isupper env c)"

definition py_strip :: "ustr \<Rightarrow> ustr" where
  "py_strip s = rev (dropWhile is_space (rev (dropWhile is_space s)))"

definition unidecode :: "text_env \<Rightarrow> ustr \<Rightarrow> ustr" where
  \<comment> \<open>character by character; ASCII is returned as it is\<close>
  "unidecode env s = concat (map (\<lambda>c. if c < 128 then [c] else unidecode_table env c) s)"

subsection \<open>Regular expressions\<close>

text \<open>
  A compiled pattern is a matcher: given the character before the current position
  (\<open>None\<close> at the start of the text) and the rest of the text from that position, it
  returns the length of the match that \<open>re\<close> finds there, or \<open>None\<close>. No pattern of the
  cleaner matches the empty string. \<open>re_sub\<close> and \<open>re_findall\<close> scan from left to
  right and continue after each match, as \<open>Pattern.sub\<close> and \<open>Pattern.findall\<close> do.
\<close>

type_synonym matcher = "uchar option \<Rightarrow> ustr \<Rightarrow> nat option"

fun re_sub :: "matcher \<Rightarrow> (ustr \<Rightarrow> ustr) \<Rightarrow> uchar option \<Rightarrow> ustr \<Rightarrow> ustr" where
  "re_sub m repl prev [] = []"
| "re_sub m repl prev (c # cs) =
     (case m prev (c # cs) of
        None \<Rightarrow> c # re_sub m repl (Some c) cs
      | Some 0 \<Rightarrow> c # re_sub m repl (Some c) cs
      | Some (Suc n) \<Rightarrow>
          repl (take (Suc n) (c # cs))
          @ re_sub m repl (Some (last (take (Suc n) (c # cs)))) (drop n cs))"

fun re_findall :: "matcher \<Rightarrow> uchar option \<Rightarrow> ustr \<Rightarrow> ustr list" where
  "re_findall m prev [] = []"
| "re_findall m prev (c # cs) =
     (case m prev (c # cs) of
        None \<Rightarrow> re_findall m (Some c) cs
      | Some 0 \<Rightarrow> re_findall m (Some c) cs
      | Some (Suc n) \<Rightarrow>
          take (Suc n) (c # cs)
          # re_findall m (Some (last (take (Suc n) (c # cs)))) (drop n cs))"

definition run_len :: "(uchar \<Rightarrow> bool) \<Rightarrow> ustr \<Rightarrow> nat" where
  "run_len P s = length (takeWhile P s)"

definition strip_prefix :: "ustr \<Rightarrow> ustr \<Rightarrow> ustr option" where
  "strip_prefix p s = (if take (length p) s = p then Some (drop (length p) s) else None)"

definition plus_matcher :: "(uchar \<Rightarrow> bool) \<Rightarrow> matcher" where
  \<comment> \<open>\<open>[class]+\<close>\<close>
  "plus_matcher P prev s = (if run_len P s = 0 then None else Some (run_len P s))"

definition char_matcher :: "(uchar \<Rightarrow> bool) \<Rightarrow> matcher" where
  \<comment> \<open>\<open>[class]\<close>\<close>
  "char_matcher P prev s = (case s of [] \<Rightarrow> None | c # cs \<Rightarrow> if P c then Some 1 else None)"

definition url_char :: "uchar \<Rightarrow> bool" where
  \<comment> \<open>\<open>[a-zA-Z]|[0-9]|[$-_@.&+]|[!*\\(\\),]\<close>; the range \<open>$-_\<close> is 36 to 95. The last
      alternative \<open>%[0-9a-fA-F][0-9a-fA-F]\<close> is never reached: \<open>%\<close> is 37, in that
      range.\<close>
  "url_char c =
     (is_ascii_lower c \<or> is_ascii_upper c \<or> is_ascii_digit c
      \<or> (36 \<le> c \<and> c \<le> 95) \<or> c = 64 \<or> c = 46 \<or> c = 38 \<or> c = 43
      \<or> c = 33 \<or> c = 42 \<or> c = 92 \<or> c = 40 \<or> c = 41 \<or> c = 44)"

definition url_pattern :: matcher where
  \<comment> \<open>\<open>http[s]?://(?:...)+\<close>: the optional \<open>s\<close> is taken when it is there (without it
      \<open>://\<close> would have to start at that \<open>s\<close>)\<close>
  "url_pattern prev s =
     (case strip_prefix (py_str ''http'') s of
        None \<Rightarrow> None
      | Some r1 \<Rightarrow>
          let r2 = (case r1 of [] \<Rightarrow> r1 | c # cs \<Rightarrow> if c = 115 then cs else r1) in
          (case strip_prefix (py_str ''://'') r2 of
             None \<Rightarrow> None
           | Some r3 \<Rightarrow>
               if run_len url_char r3 = 0 then None
               else Some (length s - length r3 + run_len url_char r3)))"

definition mention_pattern :: "text_env \<Rightarrow> matcher" where
  \<comment> \<open>\<open>@\w+\<close>\<close>
  "mention_pattern env prev s =
     (case s of
        [] \<Rightarrow> None
      | c # cs \<Rightarrow>
          if c = 64 \<and> 0 < run_len (is_word env) cs
          then Some (1 + run_len (is_word env) cs) else None)"

definition hashtag_pattern :: "text_env \<Rightarrow> matcher" where
  \<comment> \<open>\<open>#\w+\<close>\<close>
  "hashtag_pattern env prev s =
     (case s of
        [] \<Rightarrow> None
      | c # cs \<Rightarrow>
          if c = 35 \<and> 0 < run_len (is_word env) cs
          then Some (1 + run_len (is_word env) cs) else None)"

definition whitespace_pattern :: matcher where
  \<comment> \<open>\<open>\s+\<close>\<close>
  "whitespace_pattern = plus_matcher is_space"

definition special_char :: "bool \<Rightarrow> uchar \<Rightarrow> bool" where
  \<comment> \<open>\<open>[^a-zA-Z0-9\s.,!?;:]\<close> with punctuation kept, \<open>[^a-zA-Z0-9\s]\<close> without\<close>
  "special_char keep_punctuation c =
     (\<not> (is_ascii_alnum c \<or> is_space c
         \<or> (keep_punctuation \<and> (c = 46 \<or> c = 44 \<or> c = 33 \<or> c = 63 \<or> c = 59 \<or> c = 58))))"

definition repeated_pattern :: "nat \<Rightarrow> matcher" where
  \<comment> \<open>\<open>(.)\1{k,}\<close>: the dot matches any character but the newline, the greedy
      repetition takes the whole run\<close>
  "repeated_pattern k prev s =
     (case s of
        [] \<Rightarrow> None
      | c # cs \<Rightarrow>
          if c \<noteq> 10 \<and> k \<le> run_len (\<lambda>d. d = c) cs
          then Some (1 + run_len (\<lambda>d. d = c) cs) else None)"

definition repeated_chars_pattern :: matcher where
  "repeated_chars_pattern = repeated_pattern 2"

definition html_pattern :: matcher where
  \<comment> \<open>\<open><[^>]+>\<close>\<close>
  "html_pattern prev s =
     (case s of
        [] \<Rightarrow> None
      | c # cs \<Rightarrow>
          let n = run_len (\<lambda>d. d \<noteq> 62) cs in
          if c = 60 \<and> 0 < n \<and> n < length cs then Some (n + 2) else None)"

text \<open>
  The e-mail pattern
  \<open>\b[A-Za-z0-9._%+-]+@[A-Za-z0-9.-]+\.[A-Z|a-z]{2,}\b\<close>.
  \<open>word_boundary\<close> is \<open>\b\<close> between two neighbouring characters (\<open>None\<close> outside the
  text). The local part is the whole run of its class, which must end at the \<open>@\<close>. The
  greedy domain part gives characters back until a dot follows it, and the greedy
  top-level part gives characters back (down to two) until a word boundary follows it;
  \<open>email_domain\<close> and \<open>email_tld\<close> try the lengths in that order.
\<close>

definition word_boundary :: "text_env \<Rightarrow> uchar option \<Rightarrow> uchar option \<Rightarrow> bool" where
  "word_boundary env a b =
     ((case a of None \<Rightarrow> False | Some c \<Rightarrow> is_word env c)
      \<noteq> (case b of None \<Rightarrow> False | Some c \<Rightarrow> is_word env c))"

definition nth_opt :: "'a list \<Rightarrow> nat \<Rightarrow> 'a option" where
  "nth_opt xs i = (if i < length xs then Some (xs ! i) else None)"

definition email_local_char :: "uchar \<Rightarrow> bool" where
  "email_local_char c =
     (is_ascii_alnum c \<or> c = 46 \<or> c = 95 \<or> c = 37 \<or> c = 43 \<or> c = 45)"

definition email_domain_char :: "uchar \<Rightarrow> bool" where
  "email_domain_char c = (is_ascii_alnum c \<or> c = 46 \<or> c = 45)"

definition email_tld_char :: "uchar \<Rightarrow> bool" where
  "email_tld_char c = (is_ascii_upper c \<or> c = 124 \<or> is_ascii_lower c)"

fun email_tld :: "text_env \<Rightarrow> ustr \<Rightarrow> nat \<Rightarrow> nat option" where
  "email_tld env u 0 = None"
| "email_tld env u (Suc m) =
     (if 2 \<le> Suc m \<and> word_boundary env (nth_opt u m) (nth_opt u (Suc m))
      then Some (Suc m) else email_tld env u m)"

fun email_domain :: "text_env \<Rightarrow> ustr \<Rightarrow> nat \<Rightarrow> nat option" where
  "email_domain env t 0 = None"
| "email_domain env t (Suc d) =
     (case (if nth_opt t (Suc d) = Some 46
            then email_tld env (drop (Suc (Suc d)) t)
                   (run_len email_tld_char (drop (Suc (Suc d)) t))
            else None) of
        Some m \<Rightarrow> Some (Suc d + 1 + m)
      | None \<Rightarrow> email_domain env t d)"

definition email_pattern :: "text_env \<Rightarrow> matcher" where
  "email_pattern env prev s =
     (let k = run_len email_local_char s in
      if word_boundary env prev (nth_opt s 0) \<and> 0 < k \<and> nth_opt s k = Some 64
      then (case email_domain env (drop (Suc k) s)
                   (run_len email_domain_char (drop (Suc k) s)) of
              Some n \<Rightarrow> Some (k + 1 + n)
            | None \<Rightarrow> None)
      else None)"

subsection \<open>The methods of \<open>TextCleaner\<close>\<close>

definition remove_urls :: "ustr \<Rightarrow> ustr" where
  "remove_urls text = re_sub url_pattern (\<lambda>m. []) None text"

definition remove_emails :: "text_env \<Rightarrow> ustr \<Rightarrow> ustr" where
  "remove_emails env text = re_sub (email_pattern env) (\<lambda>m. []) None text"

definition remove_html_tags :: "text_env \<Rightarrow> ustr \<Rightarrow> ustr" where
  "remove_html_tags env text =
     (case bs_get_text env text of
        Inr t \<Rightarrow> t
      | Inl e \<Rightarrow> re_sub html_pattern (\<lambda>m. []) None text)"

definition remove_mentions :: "text_env \<Rightarrow> ustr \<Rightarrow> ustr" where
  "remove_mentions env text = re_sub (mention_pattern env) (\<lambda>m. []) None text"

definition remove_hashtags :: "text_env \<Rightarrow> ustr \<Rightarrow> ustr" where
  "remove_hashtags env text = re_sub (hashtag_pattern env) (\<lambda>m. []) None text"

definition extract_hashtags_count :: "text_env \<Rightarrow> ustr \<Rightarrow> nat" where
  \<comment> \<open>\<open>len(self.extract_hashtags(text))\<close>\<close>
  "extract_hashtags_count env text = length (re_findall (hashtag_pattern env) None text)"

definition replace_emojis_with_text :: "text_env \<Rightarrow> ustr \<Rightarrow> ustr" where
  "replace_emojis_with_text env text = emoji_demojize env text"

definition normalize_whitespace :: "ustr \<Rightarrow> ustr" where
  "normalize_whitespace text = py_strip (re_sub whitespace_pattern (\<lambda>m. [32]) None text)"

definition remove_special_characters :: "ustr \<Rightarrow> bool \<Rightarrow> ustr" where
  "remove_special_characters text keep_punctuation =
     re_sub (char_matcher (special_char keep_punctuation)) (\<lambda>m. []) None text"

definition normalize_unicode :: "text_env \<Rightarrow> ustr \<Rightarrow> ustr" where
  "normalize_unicode env text = unidecode env text"

definition remove_repeated_characters :: "ustr \<Rightarrow> nat \<Rightarrow> ustr" where
  \<comment> \<open>the replacement \<open>r'\1' * max_repeats\<close> writes the repeated character
      \<open>max_repeats\<close> times\<close>
  "remove_repeated_characters text max_repeats =
     re_sub (repeated_pattern max_repeats) (\<lambda>m. replicate max_repeats (hd m)) None text"

definition clean :: "text_env \<Rightarrow> ustr \<Rightarrow> bool \<Rightarrow> bool \<Rightarrow> ustr" where
  "clean env text preserve_hashtags preserve_mentions =
     (if text = [] then []
      else
        let cleaned = py_strip text;
            cleaned = remove_html_tags env cleaned;
            cleaned = remove_urls cleaned;
            cleaned = remove_emails env cleaned;
            cleaned = (if \<not> preserve_hashtags then remove_hashtags env cleaned else cleaned);
            cleaned = (if \<not> preserve_mentions then remove_mentions env cleaned else cleaned);
            cleaned = replace_emojis_with_text env cleaned;
            cleaned = remove_special_characters cleaned True;
            cleaned = normalize_unicode env cleaned;
            cleaned = remove_repeated_characters cleaned 2;
            cleaned = normalize_whitespace cleaned
        in py_strip cleaned)"

definition clean_default :: "text_env \<Rightarrow> ustr \<Rightarrow> ustr" where
  \<comment> \<open>\<open>clean(text)\<close> with the defaults \<open>preserve_hashtags=True\<close>,
      \<open>preserve_mentions=False\<close>\<close>
  "clean_default env text = clean env text True False"

definition clean_for_classification :: "text_env \<Rightarrow> ustr \<Rightarrow> ustr" where
  "clean_for_classification env text =
     (if text = [] then []
      else
        let cleaned = py_strip text;
            cleaned = remove_html_tags env cleaned;
            cleaned = remove_urls cleaned;
            cleaned = replace_emojis_with_text env cleaned;
            cleaned = normalize_unicode env cleaned;
            cleaned = remove_repeated_characters cleaned 2;
            cleaned = remove_special_characters cleaned True;
            cleaned = normalize_whitespace cleaned
        in cleaned)"

record text_stats =
  character_count :: nat
  word_count :: nat
  sentence_count :: nat
  hashtag_count :: nat
  mention_count :: nat
  emoji_count :: nat
  url_count :: nat

definition sentence_end_char :: "uchar \<Rightarrow> bool" where
  \<comment> \<open>\<open>[.!?]\<close>\<close>
  "sentence_end_char c = (c = 46 \<or> c = 33 \<or> c = 63)"

definition get_text_stats :: "text_env \<Rightarrow> ustr \<Rightarrow> text_stats" where
  \<comment> \<open>\<open>text.split()\<close> gives the maximal runs of non-whitespace; \<open>re.split\<close> gives one
      piece more than there are separators\<close>
  "get_text_stats env text =
     \<lparr>character_count = length text,
      word_count = length (re_findall (plus_matcher (\<lambda>c. \<not> is_space c)) None text),
      sentence_count = length (re_findall (plus_matcher sentence_end_char) None text) + 1,
      hashtag_count = extract_hashtags_count env text,
      mention_count = length (re_findall (mention_pattern env) None text),
      emoji_count = emoji_list_len env text,
      url_count = length (re_findall url_pattern None text)\<rparr>"

text \<open>
  \<open>is_spam\<close>: the ratios are float divisions of two counts, compared with a decimal
  literal; on reals the comparison has the same outcome for every text that fits in
  memory.
\<close>

definition is_spam :: "text_env \<Rightarrow> ustr \<Rightarrow> bool" where
  "is_spam env text =
     (let stats = get_text_stats env text;
          word_count = max (word_count stats) 1;
          hashtag_ratio = real (hashtag_count stats) / real word_count
      in if 3 / 10 < hashtag_ratio then True
         else
           let mention_ratio = real (mention_count stats) / real word_count
           in if 2 / 10 < mention_ratio then True
              else if 2 < url_count stats then True
              else if 10 < length text
                      \<and> 7 / 10 < real (length (filter (py_isupper env) text)) / real (length text)
                   then True
              else
                let repeated_sections = length (re_findall repeated_chars_pattern None text)
                in if 3 < repeated_sections then True else False)"

text \<open>
  The heuristic as the specification words it, with the capitalisation check for texts
  of at least 10 characters, and as the code has it, for more than 10.
\<close>

definition spam_conditions :: "text_env \<Rightarrow> nat \<Rightarrow> ustr \<Rightarrow> bool" where
  "spam_conditions env min_len text =
     (let words = max (word_count (get_text_stats env text)) 1 in
      3 / 10 < real (hashtag_count (get_text_stats env text)) / real words
      \<or> 2 / 10 < real (mention_count (get_text_stats env text)) / real words
      \<or> 2 < url_count (get_text_stats env text)
      \<or> (min_len \<le> length text
          \<and> 7 / 10 < real (length (filter (py_isupper env) text)) / real (length text))
      \<or> 3 < length (re_findall repeated_chars_pattern None text))"

text \<open>
  The order of cleaning steps that the specification gives for the normaliser.
\<close>

definition spec_normalize :: "text_env \<Rightarrow> ustr \<Rightarrow> ustr" where
  "spec_normalize env text =
     normalize_whitespace
       (remove_special_characters
          (remove_repeated_characters
             (normalize_unicode env
                (replace_emojis_with_text env
                   (remove_emails env (remove_urls (remove_html_tags env text))))) 2) True)"

text \<open>
  The three libraries on text that is plain ASCII without markup or emoji: they return
  it unchanged.
\<close>

definition plain_env :: text_env where
  "plain_env =
     \<lparr>bs_get_text = (\<lambda>s. Inr s), emoji_demojize = (\<lambda>s. s), emoji_list_len = (\<lambda>s. 0),
      unidecode_table = (\<lambda>c. []), uc_isalnum = (\<lambda>c. False), uc_isupper = (\<lambda>c. False)\<rparr>"

text \<open>
  The libraries on Latin text with the letter \<open>e\<close> with acute accent (code point 233):
  \<open>unidecode\<close> transliterates it to \<open>e\<close>, and it is alphanumeric and not uppercase.
\<close>

definition latin_env :: text_env where
  "latin_env =
     \<lparr>bs_get_text = (\<lambda>s. Inr s), emoji_demojize = (\<lambda>s. s), emoji_list_len = (\<lambda>s. 0),
      unidecode_table = (\<lambda>c. if c = 233 then [101] else []),
      uc_isalnum = (\<lambda>c. c = 233), uc_isupper = (\<lambda>c. False)\<rparr>"

subsection \<open>Normal forms of cleaned text\<close>

text \<open>
  \<open>collapse_ws\<close> is the substitution of \<open>normalize_whitespace\<close>, before its \<open>strip\<close>.
  The notions in which the results of the cleaners are described: a plain character is
  an ASCII letter or digit, the space, or one of \<open>.,!?;:\<close>; a text is triple free when
  no character other than whitespace occurs three times in a row, and single spaced when
  no two whitespace characters are neighbours. A text in spaced form consists of plain
  characters, is single spaced and neither starts nor ends with whitespace; in normal
  form it is triple free as well.
\<close>

definition collapse_ws :: "ustr \<Rightarrow> ustr" where
  "collapse_ws s = re_sub whitespace_pattern (\<lambda>m. [32]) None s"

definition plain_char :: "uchar \<Rightarrow> bool" where
  "plain_char c =
     (is_ascii_alnum c \<or> c = 32 \<or> c = 46 \<or> c = 44 \<or> c = 33 \<or> c = 63 \<or> c = 59 \<or> c = 58)"

fun triple_free :: "ustr \<Rightarrow> bool" where
  "triple_free (a # b # c # r) = (\<not> (a = b \<and> b = c \<and> \<not> is_space a) \<and> triple_free (b # c # r))"
| "triple_free r = True"

fun single_spaced :: "ustr \<Rightarrow> bool" where
  "single_spaced (a # b # r) = (\<not> (is_space a \<and> is_space b) \<and> single_spaced (b # r))"
| "single_spaced r = True"

definition spaced_form :: "ustr \<Rightarrow> bool" where
  "spaced_form s =
     ((\<forall>c\<in>set s. plain_char c) \<and> single_spaced s
      \<and> (s = [] \<or> (\<not> is_space (hd s) \<and> \<not> is_space (last s))))"

definition normal_form :: "ustr \<Rightarrow> bool" where
  "normal_form s = (spaced_form s \<and> triple_free s)"


section \<open>Topic clustering (\<open>services/topic_cluster.py\<close>)\<close>

text \<open>
  A post is a dictionary. A key whose value is only tested for truth is an option
  (\<open>None\<close>: absent or \<open>None\<close>); for \<open>text\<close> the three cases differ, since
  \<open>post.get('text', '')\<close> is \<open>''\<close> for an absent key and \<open>None\<close> for a stored \<open>None\<close>.
\<close>

datatype 'a field = Absent | PyNone | Val 'a

record post =
  p_id :: "string option"
  p_textContent :: "ustr option"
  p_text :: "ustr field"
  p_engagementCount :: "int option"
  p_likesCount :: "int option"
  p_sharesCount :: "int option"
  p_commentsCount :: "int option"
  p_engagement :: "int option"

definition post_text :: "post \<Rightarrow> ustr option" where
  \<comment> \<open>\<open>post.get('textContent', '') or post.get('text', '')\<close>; the result \<open>None\<close> is
      Python's \<open>None\<close>\<close>
  "post_text p =
     (case p_textContent p of
        Some s \<Rightarrow>
          if s \<noteq> [] then Some s
          else (case p_text p of Absent \<Rightarrow> Some [] | PyNone \<Rightarrow> None | Val t \<Rightarrow> Some t)
      | None \<Rightarrow> (case p_text p of Absent \<Rightarrow> Some [] | PyNone \<Rightarrow> None | Val t \<Rightarrow> Some t))"

fun extract_texts :: "post list \<Rightarrow> ustr list" where
  "extract_texts [] = []"
| "extract_texts (p # ps) =
     (case post_text p of
        Some s \<Rightarrow> if s \<noteq> [] then s # extract_texts ps else extract_texts ps
      | None \<Rightarrow> extract_texts ps)"

text \<open>
  What the clusterer takes from outside the repository: whether the models are loaded
  and what loading them does, the embedding provider (sentence transformer or TF-IDF),
  the density-based clusterer (\<open>fit_predict\<close> of HDBSCAN or DBSCAN for a minimum
  cluster size), the TF-IDF keyword ranking, and \<open>str.title\<close>. Each may raise.
\<close>

type_synonym embedding = "real list"

record cluster_env =
  is_loaded :: bool
  load_models :: "py_error + unit"
  embed :: "ustr list \<Rightarrow> py_error + embedding list"
  fit_predict :: "embedding list \<Rightarrow> nat \<Rightarrow> py_error + int list"
  tfidf_keywords :: "ustr list \<Rightarrow> py_error + ustr list"
  str_title :: "ustr \<Rightarrow> ustr"

text \<open>
  A topic's \<open>id\<close> is \<open>topic_<n>\<close> or \<open>fallback_cluster\<close>; the reference that is later
  written to a record is that \<open>id\<close>, or the identifier that the database gave the
  persisted topic.
\<close>

datatype topic_ref = ClusterId nat | FallbackCluster | DbId string

record topic =
  t_id :: topic_ref
  t_posts :: "post list"
  t_size :: nat
  t_title :: "ustr option"
  t_keywords :: "ustr list"
  t_topic_id :: "string option"

definition generate_embeddings :: "cluster_env \<Rightarrow> ustr list \<Rightarrow> embedding list" where
  "generate_embeddings env texts =
     (if texts = [] then []
      else (case embed env texts of
              Inr e \<Rightarrow> e
            | Inl err \<Rightarrow> replicate (length texts) (replicate 384 0)))"

definition apply_clustering :: "cluster_env \<Rightarrow> embedding list \<Rightarrow> nat \<Rightarrow> int list" where
  "apply_clustering env embeddings min_cluster_size =
     (if length embeddings < min_cluster_size then replicate (length embeddings) (- 1)
      else (case fit_predict env embeddings min_cluster_size of
              Inr cluster_labels \<Rightarrow> cluster_labels
            | Inl err \<Rightarrow> replicate (length embeddings) (- 1)))"

text \<open>
  \<open>_group_posts_by_cluster\<close>: the dictionary \<open>topics\<close> keeps its keys in insertion
  order; it is an association list from label to topic.
\<close>

fun add_to_topic :: "int \<Rightarrow> post \<Rightarrow> (int \<times> topic) list \<Rightarrow> (int \<times> topic) list" where
  "add_to_topic label p [] = []"
| "add_to_topic label p ((l, t) # ts) =
     (if l = label then (l, t\<lparr>t_posts := t_posts t @ [p], t_size := t_size t + 1\<rparr>) # ts
      else (l, t) # add_to_topic label p ts)"

fun group_loop ::
  "(post \<times> int) list \<Rightarrow> (int \<times> topic) list \<Rightarrow> nat \<Rightarrow> (int \<times> topic) list" where
  "group_loop [] topics cluster_id_counter = topics"
| "group_loop ((p, label) # rest) topics cluster_id_counter =
     (if label = - 1 then group_loop rest topics cluster_id_counter
      else if label \<notin> fst ` set topics
      then group_loop rest
             (add_to_topic label p
                (topics @ [(label, \<lparr>t_id = ClusterId cluster_id_counter, t_posts = [],
                                    t_size = 0, t_title = None, t_keywords = [],
                                    t_topic_id = None\<rparr>)]))
             (cluster_id_counter + 1)
      else group_loop rest (add_to_topic label p topics) cluster_id_counter)"

definition group_posts_by_cluster :: "post list \<Rightarrow> int list \<Rightarrow> nat \<Rightarrow> topic list" where
  "group_posts_by_cluster posts cluster_labels effective_min_cluster_size =
     filter (\<lambda>t. effective_min_cluster_size \<le> t_size t)
       (map snd (group_loop (zip posts cluster_labels) [] 0))"

definition extract_keywords :: "cluster_env \<Rightarrow> ustr list \<Rightarrow> ustr list" where
  "extract_keywords env texts =
     (if texts = [] then []
      else (case tfidf_keywords env texts of Inr keywords \<Rightarrow> keywords | Inl err \<Rightarrow> []))"

text \<open>
  \<open>generate_topic_title\<close>. The loop keeps the representative text and the best score;
  \<open>len(text)\<close> raises \<open>TypeError\<close> when the text is \<open>None\<close>. \<open>post_score\<close> is the score
  of a post in the loop, \<open>engagement / max(length, 1)\<close>.
\<close>

definition post_score :: "post \<Rightarrow> ustr \<Rightarrow> real" where
  "post_score p txt =
     (let engagement = (case p_engagementCount p of None \<Rightarrow> 0 | Some e \<Rightarrow> e);
          len = length txt
      in real_of_int engagement / real (max len 1))"

fun title_loop :: "post list \<Rightarrow> ustr option \<times> real \<Rightarrow> py_error + ustr option \<times> real" where
  "title_loop [] st = Inr st"
| "title_loop (p # ps) (representative_post, best_score) =
     (case post_text p of
        None \<Rightarrow> Inl TypeError
      | Some txt \<Rightarrow>
          if 0 < length txt
          then let score = post_score p txt
               in if best_score < score then title_loop ps (Some txt, score)
                  else title_loop ps (representative_post, best_score)
          else title_loop ps (representative_post, best_score))"

fun join_space :: "ustr list \<Rightarrow> ustr" where
  \<comment> \<open>\<open>" ".join(...)\<close>\<close>
  "join_space [] = []"
| "join_space [k] = k"
| "join_space (k # ks) = k @ [32] @ join_space ks"

definition generate_topic_title :: "cluster_env \<Rightarrow> post list \<Rightarrow> ustr list \<Rightarrow> ustr" where
  "generate_topic_title env posts keywords =
     (case title_loop posts (None, - 1) of
        Inl err \<Rightarrow> py_str ''Untitled Topic''
      | Inr (representative_post, best_score) \<Rightarrow>
          (case representative_post of
             Some r \<Rightarrow>
               if r \<noteq> [] \<and> length r \<le> 100 then r
               else if keywords \<noteq> []
               then take 100 (str_title env (join_space (take 3 keywords)))
               else py_str ''Untitled Topic''
           | None \<Rightarrow>
               if keywords \<noteq> []
               then take 100 (str_title env (join_space (take 3 keywords)))
               else py_str ''Untitled Topic''))"

definition generate_topic_metadata :: "cluster_env \<Rightarrow> topic \<Rightarrow> topic" where
  \<comment> \<open>\<open>topic.update(await self.generate_topic_metadata(topic['posts'], topic['id']))\<close>,
      for the title and the keywords\<close>
  "generate_topic_metadata env t =
     (let texts = extract_texts (t_posts t);
          keywords = extract_keywords env texts;
          title = generate_topic_title env (t_posts t) keywords
      in t\<lparr>t_title := Some title, t_keywords := keywords\<rparr>)"

definition fallback_cluster :: "post list \<Rightarrow> topic" where
  "fallback_cluster posts =
     \<lparr>t_id = FallbackCluster, t_posts = posts, t_size = length posts, t_title = None,
      t_keywords = [], t_topic_id = None\<rparr>"

definition cluster_body :: "cluster_env \<Rightarrow> post list \<Rightarrow> nat \<Rightarrow> py_error + topic list" where
  \<comment> \<open>the \<open>try\<close> block of \<open>cluster_posts\<close>; every step in it handles its own exceptions\<close>
  "cluster_body env posts min_cluster_size =
     (let texts = extract_texts posts in
      if texts = [] then Inr []
      else
        let embeddings = generate_embeddings env texts;
            cluster_labels = apply_clustering env embeddings min_cluster_size;
            topics = group_posts_by_cluster posts cluster_labels
                       (if min_cluster_size = 0 then 5 else min_cluster_size)
        in Inr (map (generate_topic_metadata env) topics))"

definition cluster_posts ::
  "cluster_env \<Rightarrow> post list \<Rightarrow> nat option \<Rightarrow> py_error + topic list" where
  \<comment> \<open>\<open>min_cluster_size or self.min_cluster_size\<close>: \<open>None\<close> and \<open>0\<close> give the default 5;
      \<open>load_models\<close> is awaited outside the \<open>try\<close> block\<close>
  "cluster_posts env posts min_cluster_size =
     (if posts = [] then Inr []
      else
        bindE (if \<not> is_loaded env then load_models env else Inr ()) (\<lambda>u.
        let min_cluster_size =
              (case min_cluster_size of None \<Rightarrow> 5 | Some n \<Rightarrow> if n = 0 then 5 else n)
        in case cluster_body env posts min_cluster_size of
             Inr topics \<Rightarrow> Inr topics
           | Inl err \<Rightarrow> Inr [fallback_cluster posts]))"

text \<open>\<open>str.title\<close> on ASCII text, and an environment whose providers all raise.\<close>

fun ascii_title :: "bool \<Rightarrow> ustr \<Rightarrow> ustr" where
  "ascii_title previous_is_cased [] = []"
| "ascii_title previous_is_cased (c # cs) =
     (if previous_is_cased then (if is_ascii_upper c then c + 32 else c)
      else (if is_ascii_lower c then c - 32 else c))
     # ascii_title (is_ascii_upper c \<or> is_ascii_lower c) cs"

definition failing_env :: cluster_env where
  "failing_env =
     \<lparr>is_loaded = True, load_models = Inr (),
      embed = (\<lambda>texts. Inl RuntimeError),
      fit_predict = (\<lambda>embeddings n. Inl ValueError),
      tfidf_keywords = (\<lambda>texts. Inl ValueError),
      str_title = ascii_title False\<rparr>"

definition text_post :: "string \<Rightarrow> string \<Rightarrow> post" where
  "text_post i s =
     \<lparr>p_id = Some i, p_textContent = None, p_text = Val (py_str s),
      p_engagementCount = None, p_likesCount = None, p_sharesCount = None,
      p_commentsCount = None, p_engagement = None\<rparr>"

text \<open>
  An environment whose keyword ranking returns \<open>alpha\<close> and \<open>beta\<close>, and a post
  without text.
\<close>

definition keyword_env :: cluster_env where
  "keyword_env =
     \<lparr>is_loaded = True, load_models = Inr (),
      embed = (\<lambda>texts. Inl RuntimeError),
      fit_predict = (\<lambda>embeddings n. Inl ValueError),
      tfidf_keywords = (\<lambda>texts. Inr [py_str ''alpha'', py_str ''beta'']),
      str_title = ascii_title False\<rparr>"

definition textless_post :: "string \<Rightarrow> post" where
  "textless_post i =
     \<lparr>p_id = Some i, p_textContent = None, p_text = Absent,
      p_engagementCount = None, p_likesCount = None, p_sharesCount = None,
      p_commentsCount = None, p_engagement = None\<rparr>"


section \<open>Ingestion (\<open>routers/ingest_router.py\<close>)\<close>

text \<open>
  The table \<open>IngestEvent\<close>, as the session of a run sees it: for each record id the
  \<open>processed\<close> flag and the \<open>topicId\<close>. Commit and rollback are not modelled.
\<close>

record ingest_event =
  ev_processed :: bool
  ev_topicId :: "string option"

type_synonym ingest_table = "string \<Rightarrow> ingest_event option"

text \<open>
  The two \<open>UPDATE\<close> statements of \<open>_update_ingest_event_flags\<close>. Both have the condition
  \<open>IngestEvent.processed == False\<close> in their \<open>WHERE\<close> clause.
\<close>

definition update_linked :: "ingest_table \<Rightarrow> string \<Rightarrow> string \<Rightarrow> ingest_table" where
  \<comment> \<open>\<open>update(IngestEvent).where(and_(id == post_id, processed == False))
      .values(processed=True, topicId=...)\<close>\<close>
  "update_linked db post_id topic_id =
     (case db post_id of
        None \<Rightarrow> db
      | Some ev \<Rightarrow>
          if ev_processed ev then db
          else db(post_id \<mapsto> ev\<lparr>ev_processed := True, ev_topicId := Some topic_id\<rparr>))"

definition update_processed :: "ingest_table \<Rightarrow> string list \<Rightarrow> ingest_table" where
  \<comment> \<open>\<open>update(IngestEvent).where(and_(id.in_(post_ids), processed == False))
      .values(processed=True)\<close>\<close>
  "update_processed db post_ids =
     (\<lambda>i. case db i of
            None \<Rightarrow> None
          | Some ev \<Rightarrow>
              if i \<in> set post_ids \<and> \<not> ev_processed ev
              then Some (ev\<lparr>ev_processed := True\<rparr>) else Some ev)"

datatype statement = LinkTopic string string | MarkProcessed "string list"

fun execute :: "ingest_table \<Rightarrow> statement \<Rightarrow> ingest_table" where
  "execute db (LinkTopic post_id topic_id) = update_linked db post_id topic_id"
| "execute db (MarkProcessed post_ids) = update_processed db post_ids"

text \<open>
  The loop over \<open>updates\<close>. The column \<open>topicId\<close> holds identifiers of the database; a
  statement with a cluster's own \<open>id\<close> (\<open>topic_0\<close>, \<open>fallback_cluster\<close>) raises, and the
  \<open>except\<close> branch of the function ends the loop.
\<close>

fun link_loop :: "ingest_table \<Rightarrow> (string \<times> topic_ref) list \<Rightarrow> ingest_table" where
  "link_loop db [] = db"
| "link_loop db ((post_id, r) # updates) =
     (case r of
        DbId topic_id \<Rightarrow> link_loop (execute db (LinkTopic post_id topic_id)) updates
      | ClusterId n \<Rightarrow> db
      | FallbackCluster \<Rightarrow> db)"

definition post_ids_of :: "post list \<Rightarrow> string list" where
  \<comment> \<open>\<open>[post.get('id') for post in posts if post.get('id')]\<close>\<close>
  "post_ids_of posts =
     concat (map (\<lambda>p. case p_id p of None \<Rightarrow> [] | Some i \<Rightarrow> if i = [] then [] else [i]) posts)"

definition update_ingest_event_flags ::
  "ingest_table \<Rightarrow> post list \<Rightarrow> (string \<times> topic_ref) list \<Rightarrow> ingest_table" where
  \<comment> \<open>the mapping is a dictionary, here an association list read by \<open>map_of\<close>\<close>
  "update_ingest_event_flags db posts topic_id_mapping =
     (let post_ids = post_ids_of posts in
      if post_ids = [] then db
      else if topic_id_mapping \<noteq> []
      then link_loop db
             (concat (map (\<lambda>post_id. case map_of topic_id_mapping post_id of
                                       None \<Rightarrow> [] | Some r \<Rightarrow> [(post_id, r)]) post_ids))
      else execute db (MarkProcessed post_ids))"

fun mapping_posts ::
  "topic_ref \<Rightarrow> post list \<Rightarrow> (string \<times> topic_ref) list \<Rightarrow> (string \<times> topic_ref) list" where
  \<comment> \<open>\<open>topic_id_mapping[post_id] = topic_id\<close>; a later assignment to the same key is found
      first\<close>
  "mapping_posts r [] m = m"
| "mapping_posts r (p # ps) m =
     (case p_id p of
        None \<Rightarrow> mapping_posts r ps m
      | Some i \<Rightarrow> if i = [] then mapping_posts r ps m else mapping_posts r ps ((i, r) # m))"

fun mapping_topics :: "topic list \<Rightarrow> (string \<times> topic_ref) list \<Rightarrow> (string \<times> topic_ref) list" where
  "mapping_topics [] m = m"
| "mapping_topics (t # ts) m =
     mapping_topics ts
       (mapping_posts (case t_topic_id t of
                         Some i \<Rightarrow> if i = [] then t_id t else DbId i
                       | None \<Rightarrow> t_id t) (t_posts t) m)"

definition create_topic_id_mapping :: "post list \<Rightarrow> topic list \<Rightarrow> (string \<times> topic_ref) list" where
  "create_topic_id_mapping posts topics = mapping_topics topics []"

text \<open>
  What a run takes from outside: the libraries of the text cleaner, the language
  detector, the sentiment, toxicity and region classifiers (each may raise), the
  clusterer's providers, and the creation of a topic with its history snapshot in the
  database, which returns the identifier of the new topic or raises.
\<close>

record run_env =
  cleaner :: text_env
  detect :: "ustr \<Rightarrow> py_error + string \<times> real"
  is_supported_language :: "ustr \<Rightarrow> py_error + bool"
  sentiment_analyze :: "ustr \<Rightarrow> py_error + real"
  toxicity_analyze :: "ustr \<Rightarrow> py_error + real \<times> bool"
  geo_classify :: "ustr \<Rightarrow> py_error + bool \<times> string option"
  clusterer :: cluster_env
  create_topic :: "topic \<Rightarrow> py_error + string"

definition process_single_post_body :: "run_env \<Rightarrow> post \<Rightarrow> py_error + post option" where
  "process_single_post_body env p =
     (case post_text p of
        None \<Rightarrow> Inr None
      | Some txt \<Rightarrow>
          if txt = [] then Inr None
          else
            let cleaned_text = clean_for_classification (cleaner env) txt in
            bindE (detect env cleaned_text) (\<lambda>(language_code, language_confidence).
            bindE (is_supported_language env cleaned_text) (\<lambda>supported.
            if \<not> supported then Inr None
            else if is_spam (cleaner env) cleaned_text then Inr None
            else
              bindE (sentiment_analyze env cleaned_text) (\<lambda>sentiment_score.
              bindE (toxicity_analyze env cleaned_text) (\<lambda>(toxicity_score, is_toxic).
              if is_toxic then Inr None
              else
                bindE (geo_classify env cleaned_text) (\<lambda>geo_result.
                let likes = (case p_likesCount p of None \<Rightarrow> 0 | Some n \<Rightarrow> n);
                    shares = (case p_sharesCount p of None \<Rightarrow> 0 | Some n \<Rightarrow> n);
                    comments = (case p_commentsCount p of None \<Rightarrow> 0 | Some n \<Rightarrow> n)
                in Inr (Some \<lparr>p_id = p_id p, p_textContent = None, p_text = Val txt,
                             p_engagementCount = None, p_likesCount = None,
                             p_sharesCount = None, p_commentsCount = None,
                             p_engagement = Some (likes + shares + comments)\<rparr>)))))))"

definition process_single_post :: "run_env \<Rightarrow> post \<Rightarrow> post option" where
  "process_single_post env p =
     (case process_single_post_body env p of Inr r \<Rightarrow> r | Inl err \<Rightarrow> None)"

definition persist_topic :: "run_env \<Rightarrow> topic \<Rightarrow> topic" where
  \<comment> \<open>the body of the loop over topics: \<open>topic['title']\<close> raises \<open>KeyError\<close> for a topic
      without title; on any exception the topic keeps no \<open>topic_id\<close>\<close>
  "persist_topic env t =
     (case t_title t of
        None \<Rightarrow> t
      | Some title \<Rightarrow>
          (case create_topic env t of
             Inr i \<Rightarrow> t\<lparr>t_topic_id := Some i\<rparr>
           | Inl err \<Rightarrow> t))"

definition cluster_posts_background ::
  "run_env \<Rightarrow> ingest_table \<Rightarrow> post list \<Rightarrow> nat \<Rightarrow> ingest_table" where
  "cluster_posts_background env db posts min_cluster_size =
     (case cluster_posts (clusterer env) posts (Some min_cluster_size) of
        Inl err \<Rightarrow> db
      | Inr topics \<Rightarrow>
          let topics = map (persist_topic env) topics;
              topic_id_mapping = create_topic_id_mapping posts topics
          in update_ingest_event_flags db posts topic_id_mapping)"

definition processed_posts_of :: "run_env \<Rightarrow> post list \<Rightarrow> post list" where
  "processed_posts_of env posts =
     concat (map (\<lambda>p. case process_single_post env p of None \<Rightarrow> [] | Some r \<Rightarrow> [r]) posts)"

definition process_and_cluster_posts_background ::
  "run_env \<Rightarrow> ingest_table \<Rightarrow> post list \<Rightarrow> ingest_table" where
  "process_and_cluster_posts_background env db posts =
     (let processed_posts = processed_posts_of env posts in
      if processed_posts \<noteq> [] then cluster_posts_background env db processed_posts 5
      else db)"

text \<open>
  An environment for examples: English text with confidence 0.9, nothing toxic, the
  embedding of \<open>hello\<close> differs from that of every other text, the clusterer puts the
  points at the embedding of \<open>hello\<close> into one cluster and leaves the others as noise,
  and the database gives the topic an identifier.
\<close>

definition example_env :: run_env where
  "example_env =
     \<lparr>cleaner = plain_env,
      detect = (\<lambda>s. Inr (''en'', 9 / 10)),
      is_supported_language = (\<lambda>s. Inr True),
      sentiment_analyze = (\<lambda>s. Inr 0),
      toxicity_analyze = (\<lambda>s. Inr (0, False)),
      geo_classify = (\<lambda>s. Inr (False, None)),
      clusterer =
        \<lparr>is_loaded = True, load_models = Inr (),
         embed = (\<lambda>texts. Inr (map (\<lambda>t. if t = py_str ''hello'' then [1] else [0]) texts)),
         fit_predict = (\<lambda>embeddings n.
            Inr (map (\<lambda>e. if e = [1] then 0 else - 1) embeddings)),
         tfidf_keywords = (\<lambda>texts. Inr []),
         str_title = ascii_title False\<rparr>,
      create_topic = (\<lambda>t. Inr ''topic-uuid-1'')\<rparr>"

definition raw_post :: "string \<Rightarrow> string \<Rightarrow> post" where
  "raw_post i s =
     \<lparr>p_id = Some i, p_textContent = Some (py_str s), p_text = Absent,
      p_engagementCount = None, p_likesCount = None, p_sharesCount = None,
      p_commentsCount = None, p_engagement = None\<rparr>"

definition fresh_table :: ingest_table where
  \<comment> \<open>every record unprocessed and without topic\<close>
  "fresh_table = (\<lambda>i. Some \<lparr>ev_processed = False, ev_topicId = None\<rparr>)"


text \<open>
  A batch of seven records: five with the text \<open>hello\<close>, one with another text, and one
  whose text is in capital letters.
\<close>

definition example_batch :: "post list" where
  "example_batch =
     map (\<lambda>i. raw_post i ''hello'') [''a'', ''b'', ''c'', ''d'', ''e'']
     @ [raw_post ''f'' ''goodbye'', raw_post ''s'' ''ABCDEFGHIJKL'']"

section \<open>Classification (\<open>routers/classify_router.py\<close>)\<close>










section \<open>Properties of the scorer\<close>

lemma virality_score_body_raises: "\<exists>e. virality_score_body m = Inl e"
  by (auto simp: virality_score_body_def bindE_def call_calculate_engagement_rate_def
      Let_def split: sum.splits)

lemma calculate_virality_score_zero: "calculate_virality_score m = zero_score"
  using virality_score_body_raises [of m]
  by (auto simp: calculate_virality_score_def)

lemma round_half_even_bounds:
  "of_int a \<le> y \<Longrightarrow> y \<le> of_int b \<Longrightarrow> a \<le> round_half_even y \<and> round_half_even y \<le> b"
  unfolding round_half_even_def Let_def
  by (auto simp: le_floor_iff floor_le_iff) linarith+

lemma py_round2_bounds:
  assumes "of_int a / 100 \<le> x" and "x \<le> of_int b / 100"
  shows "of_int a / 100 \<le> py_round2 x \<and> py_round2 x \<le> of_int b / 100"
proof -
  have "of_int a \<le> x * 100" "x * 100 \<le> of_int b"
    using assms by (simp_all add: field_simps)
  then have "a \<le> round_half_even (x * 100) \<and> round_half_even (x * 100) \<le> b"
    by (rule round_half_even_bounds)
  then show ?thesis
    by (simp add: py_round2_def divide_le_cancel)
qed

lemma py_round2_between:
  assumes "lo = of_int a / 100" and "hi = of_int b / 100" and "lo \<le> x" and "x \<le> hi"
  shows "lo \<le> py_round2 x \<and> py_round2 x \<le> hi"
  using py_round2_bounds [of a x b] assms by simp

lemma clamp_q: "1 / 10 \<le> py_round2 (max (1 / 10) (min x (15 / 10)))
      \<and> py_round2 (max (1 / 10) (min x (15 / 10))) \<le> 15 / 10"
  by (rule py_round2_between [of _ 10 _ 150]) simp_all

lemma quality_multiplier_body_form:
  "quality_multiplier_body t l s = Inr r \<Longrightarrow>
     \<exists>x. r = py_round2 (max (1 / 10) (min x (15 / 10)))"
  unfolding quality_multiplier_body_def bindE_def Let_def
  by (cases "py_num t"; cases "py_num l") (simp_all only: sum.case sum.inject sum.distinct, blast+)

lemma quality_multiplier_bounds:
  "1 / 10 \<le> calculate_quality_multiplier t l s \<and> calculate_quality_multiplier t l s \<le> 15 / 10"
proof (cases "quality_multiplier_body t l s")
  case (Inl e)
  then show ?thesis by (simp add: calculate_quality_multiplier_def)
next
  case (Inr r)
  from quality_multiplier_body_form [OF Inr] obtain x :: real
    where r: "r = py_round2 (max (1 / 10) (min x (15 / 10)))" ..
  have "calculate_quality_multiplier t l s = r"
    using Inr by (simp add: calculate_quality_multiplier_def)
  with r clamp_q [of x] show ?thesis by (simp only:)
qed

lemma regional_weight_bounds:
  "1 \<le> calculate_regional_weight r sa \<and> calculate_regional_weight r sa \<le> 15 / 10"
proof -
  have b: "1 \<le> py_round2 x \<and> py_round2 x \<le> 15 / 10" if "1 \<le> x" "x \<le> 15 / 10" for x
    by (rule py_round2_between [of _ 100 _ 150]) (use that in simp_all)
  have c: "calculate_regional_weight r sa = py_round2 1
         \<or> calculate_regional_weight r sa = py_round2 (13 / 10)
         \<or> calculate_regional_weight r sa = py_round2 (11 / 10)
         \<or> calculate_regional_weight r sa = py_round2 (14 / 10)"
    by (cases r; cases sa) (auto simp: calculate_regional_weight_def Let_def)
  from c show ?thesis
    using b [of 1] b [of "13 / 10"] b [of "11 / 10"] b [of "14 / 10"] by auto
qed

lemma sentiment_strength_bounds:
  "0 \<le> calculate_sentiment_strength s \<and> calculate_sentiment_strength s \<le> 100"
proof (cases s)
  case (Num x)
  have "0 \<le> py_round2 (min (\<bar>x\<bar> * 100) 100) \<and> py_round2 (min (\<bar>x\<bar> * 100) 100) \<le> 100"
    by (rule py_round2_between [of _ 0 _ 10000]) simp_all
  with Num show ?thesis
    by (simp add: calculate_sentiment_strength_def bindE_def py_num_def)
next
  case NoneV
  then show ?thesis
    by (simp add: calculate_sentiment_strength_def bindE_def py_num_def)
qed


text \<open>
  C1. The specification gives the score of a post as \<open>min((E + V + S) * Q * R, 100)\<close> with
  \<open>E = min(log10(raw + 1) * 20, 100)\<close>. For the post with 50 likes, 2 comments,
  5 shares and 1000 views that value is positive, but \<open>calculate_virality_score\<close>
  returns the all-zero record of its \<open>except\<close> branch: the call of
  \<open>calculate_engagement_rate\<close> with two arguments raises \<open>TypeError\<close>.
\<close>

theorem virality_score_is_fallback_on_example:
  "calculate_virality_score example_post_metrics = zero_score
   \<and> virality_score (calculate_virality_score example_post_metrics) = 0
   \<and> engagement_rate (calculate_virality_score example_post_metrics) = 0
   \<and> 0 < spec_engagement 50 2 5 1000
   \<and> 0 < spec_virality_score (spec_engagement 50 2 5 1000)
         (calculate_velocity (Num 57) (Num 0) (Num 60))
         (calculate_sentiment_strength (Num 0))
         (calculate_quality_multiplier (Num 0) (Num 0) False)
         (calculate_regional_weight None False)"
proof -
  have E: "0 < spec_engagement 50 2 5 1000"
    by (simp add: spec_engagement_def Let_def)
  have V: "0 \<le> calculate_velocity (Num 57) (Num 0) (Num 60)"
  proof -
    have "0 \<le> py_round2 (min (log 10 (57 / 60 + 1) * 15) 100)
        \<and> py_round2 (min (log 10 (57 / 60 + 1) * 15) 100) \<le> 100"
      by (rule py_round2_between [of _ 0 _ 10000]) simp_all
    then show ?thesis
      by (simp add: calculate_velocity_def velocity_body_def bindE_def py_le0_def
          py_num_def py_sub_def py_log10_def Let_def)
  qed
  have S: "0 \<le> calculate_sentiment_strength (Num 0)"
    using sentiment_strength_bounds by blast
  have Q: "0 < calculate_quality_multiplier (Num 0) (Num 0) False"
    using quality_multiplier_bounds [of "Num 0" "Num 0" False] by linarith
  have R: "0 < calculate_regional_weight None False"
    using regional_weight_bounds [of None False] by linarith
  have "0 < (spec_engagement 50 2 5 1000 + calculate_velocity (Num 57) (Num 0) (Num 60)
            + calculate_sentiment_strength (Num 0))
          * calculate_quality_multiplier (Num 0) (Num 0) False
          * calculate_regional_weight None False"
    using E V S Q R by (intro mult_pos_pos) linarith+
  then show ?thesis
    using E by (simp add: calculate_virality_score_zero zero_score_def spec_virality_score_def)
qed

section \<open>Properties of the text cleaner\<close>

lemmas char_defs = is_ascii_upper_def is_ascii_lower_def is_ascii_digit_def is_ascii_alnum_def
  is_space_def is_word_def py_isupper_def url_char_def special_char_def email_local_char_def
  email_domain_char_def email_tld_char_def sentence_end_char_def

lemmas pattern_defs = run_len_def strip_prefix_def plus_matcher_def char_matcher_def
  url_pattern_def mention_pattern_def hashtag_pattern_def whitespace_pattern_def
  repeated_pattern_def repeated_chars_pattern_def html_pattern_def word_boundary_def
  nth_opt_def email_pattern_def

lemmas cleaner_defs = py_strip_def unidecode_def remove_urls_def remove_emails_def
  remove_html_tags_def remove_mentions_def remove_hashtags_def extract_hashtags_count_def
  replace_emojis_with_text_def normalize_whitespace_def remove_special_characters_def
  normalize_unicode_def remove_repeated_characters_def

lemma replicate_two: "replicate 2 x = [x, x]"
  by (simp add: numeral_2_eq_2)

text \<open>
  C7 as amended. \<open>is_spam\<close> returns true exactly when the hashtag ratio exceeds 0.3, the
  mention ratio exceeds 0.2, there are more than 2 URLs, the text is longer than 10
  characters (11 or more) and its uppercase ratio exceeds 0.7, or there are more than 3
  repetition spans.
\<close>

theorem is_spam_iff_conditions: "is_spam env text = spam_conditions env 11 text"
  by (auto simp: is_spam_def spam_conditions_def Let_def)

text \<open>
  C7 as stated fails: \<open>ABCDEFGHIJ\<close> has exactly 10 characters, all of them uppercase, so
  the conditions with "at least 10 characters" hold, but \<open>is_spam\<close> returns false.
\<close>

theorem is_spam_ten_uppercase_not_flagged:
  "length (py_str ''ABCDEFGHIJ'') = 10
   \<and> length (filter (py_isupper plain_env) (py_str ''ABCDEFGHIJ'')) = 10
   \<and> spam_conditions plain_env 10 (py_str ''ABCDEFGHIJ'')
   \<and> \<not> is_spam plain_env (py_str ''ABCDEFGHIJ'')"
  by (simp add: is_spam_def spam_conditions_def get_text_stats_def plain_env_def char_defs
      pattern_defs cleaner_defs py_str_def Let_def)

text \<open>
  C6. The specification's order strips e-mail addresses with the URLs, transliterates
  before it strips the characters that are not alphanumeric, whitespace or basic
  punctuation, and collapses runs before that strip. Neither cleaner applies it.
  \<open>clean\<close> strips first: a letter outside ASCII is removed before \<open>normalize_unicode\<close>
  can transliterate it, and a run that the strip creates is collapsed. On \<open>caf\<close> followed
  by \<open>e\<close> with acute accent it returns \<open>caf\<close> where the order of the specification and
  \<open>clean_for_classification\<close> give \<open>cafe\<close>; on \<open>a-a-a\<close> it returns \<open>aa\<close> where they
  give \<open>aaa\<close>. \<open>clean_for_classification\<close>, which the routers call, has the order of
  the specification without the removal of e-mail addresses, which only \<open>clean\<close> does:
  on \<open>a@b.co\<close> it returns \<open>ab.co\<close> where the order of the specification and \<open>clean\<close>
  give the empty text.
\<close>

theorem cleaners_differ_from_specified_order:
  "clean_default latin_env (py_str ''caf'' @ [233]) = py_str ''caf''
   \<and> spec_normalize latin_env (py_str ''caf'' @ [233]) = py_str ''cafe''
   \<and> clean_for_classification latin_env (py_str ''caf'' @ [233]) = py_str ''cafe''
   \<and> clean_default latin_env (py_str ''a-a-a'') = py_str ''aa''
   \<and> spec_normalize latin_env (py_str ''a-a-a'') = py_str ''aaa''
   \<and> clean_for_classification latin_env (py_str ''a-a-a'') = py_str ''aaa''
   \<and> clean_for_classification latin_env (py_str ''a@b.co'') = py_str ''ab.co''
   \<and> spec_normalize latin_env (py_str ''a@b.co'') = []
   \<and> clean_default latin_env (py_str ''a@b.co'') = []"
  by (simp add: clean_default_def clean_def clean_for_classification_def spec_normalize_def
      latin_env_def char_defs pattern_defs cleaner_defs py_str_def Let_def replicate_two)

section \<open>Properties of the clusterer\<close>

lemma title_loop_raises:
  "(\<exists>e. title_loop posts st = Inl e) = (\<exists>p\<in>set posts. post_text p = None)"
proof (induction posts arbitrary: st)
  case Nil
  then show ?case by simp
next
  case (Cons p ps)
  obtain r0 b0 where st: "st = (r0, b0)" by (cases st)
  show ?case
  proof (cases "post_text p")
    case None
    then show ?thesis using st by simp
  next
    case (Some tx)
    then show ?thesis using st Cons.IH by (simp add: Let_def)
  qed
qed

lemma title_loop_best:
  "title_loop posts (r0, b0) = Inr (rep, b) \<Longrightarrow>
     b0 \<le> b
     \<and> (\<forall>q\<in>set posts. \<forall>s. post_text q = Some s \<and> s \<noteq> [] \<longrightarrow> post_score q s \<le> b)
     \<and> ((rep = r0 \<and> b = b0)
        \<or> (\<exists>r. rep = Some r \<and> r \<noteq> [] \<and> b0 < b
              \<and> (\<exists>p\<in>set posts. post_text p = Some r \<and> post_score p r = b)))"
proof (induction posts arbitrary: r0 b0)
  case Nil
  then show ?case by simp
next
  case (Cons p ps)
  show ?case
  proof (cases "post_text p")
    case None
    with Cons.prems show ?thesis by simp
  next
    case (Some tx)
    show ?thesis
    proof (cases "tx \<noteq> [] \<and> b0 < post_score p tx")
      case True
      with Some Cons.prems have "title_loop ps (Some tx, post_score p tx) = Inr (rep, b)"
        by (simp add: Let_def)
      from Cons.IH [OF this] True Some show ?thesis
        by (auto simp: less_le_trans intro: order_trans)
    next
      case False
      with Some Cons.prems have run: "title_loop ps (r0, b0) = Inr (rep, b)"
        by (auto simp: Let_def split: if_splits)
      have here: "\<forall>s. post_text p = Some s \<and> s \<noteq> [] \<longrightarrow> post_score p s \<le> b0"
        using False Some by auto
      from Cons.IH [OF run] here show ?thesis
        by (auto intro: order_trans)
    qed
  qed
qed

lemma join_space_nonempty: "ks \<noteq> [] \<Longrightarrow> [] \<notin> set ks \<Longrightarrow> join_space ks \<noteq> []"
proof (cases ks)
  case Nil
  assume "ks \<noteq> []"
  with Nil show ?thesis by simp
next
  case (Cons k rest)
  assume "[] \<notin> set ks"
  with Cons show ?thesis by (cases rest) auto
qed

lemma keyword_title_nonempty:
  assumes "\<forall>s. s \<noteq> [] \<longrightarrow> str_title env s \<noteq> []" and "ks \<noteq> []" and "[] \<notin> set ks"
  shows "take 100 (str_title env (join_space (take 3 ks))) \<noteq> []"
proof -
  have "take 3 ks \<noteq> []" using assms(2) by simp
  moreover have "[] \<notin> set (take 3 ks)" using assms(3) by (auto dest: in_set_takeD)
  ultimately have "join_space (take 3 ks) \<noteq> []" by (rule join_space_nonempty)
  with assms(1) have "str_title env (join_space (take 3 ks)) \<noteq> []" by blast
  then show ?thesis by simp
qed

lemma extract_keywords_nonempty:
  assumes "\<forall>texts ks. tfidf_keywords env texts = Inr ks \<longrightarrow> [] \<notin> set ks"
  shows "[] \<notin> set (extract_keywords env texts)"
  using assms by (auto simp: extract_keywords_def split: sum.splits)

lemma untitled_length: "py_str ''Untitled Topic'' \<noteq> [] \<and> length (py_str ''Untitled Topic'') \<le> 100"
  by (simp add: py_str_def)

lemma ascii_title_nonempty: "s \<noteq> [] \<Longrightarrow> ascii_title b s \<noteq> []"
  by (cases s) simp_all

text \<open>
  C10. \<open>str.title\<close> returns a non-empty string for a non-empty one, and the keywords that
  \<open>generate_topic_metadata\<close> passes are feature names of the TF-IDF vectoriser, none of
  them empty. Then for every cluster of posts and the keywords extracted for it the title
  is not empty and has at most 100 characters, on every path:
  when computing the length of a text raises (a post whose text is \<open>None\<close>) the title is
  \<open>Untitled Topic\<close>; when the loop finds a representative text of at most 100 characters
  the title is that text, which is the non-empty text of a post of the cluster with the
  highest score \<open>engagement / length\<close>; when it finds none, or one of more than 100
  characters, the title is the title-cased first three keywords joined by spaces and cut
  to 100 characters if there are keywords, and \<open>Untitled Topic\<close> if there are none.
\<close>

theorem topic_title_nonempty_and_bounded:
  assumes "\<forall>s. s \<noteq> [] \<longrightarrow> str_title env s \<noteq> []"
    and "\<forall>texts ks. tfidf_keywords env texts = Inr ks \<longrightarrow> [] \<notin> set ks"
    and "keywords = extract_keywords env texts"
  shows "generate_topic_title env posts keywords \<noteq> []
     \<and> length (generate_topic_title env posts keywords) \<le> 100
     \<and> ((\<exists>p\<in>set posts. post_text p = None) \<longrightarrow>
          (\<exists>e. title_loop posts (None, - 1) = Inl e)
          \<and> generate_topic_title env posts keywords = py_str ''Untitled Topic'')
     \<and> (\<forall>r b. title_loop posts (None, - 1) = Inr (Some r, b) \<and> length r \<le> 100 \<longrightarrow>
          generate_topic_title env posts keywords = r \<and> r \<noteq> []
          \<and> (\<exists>p\<in>set posts. post_text p = Some r \<and> post_score p r = b)
          \<and> (\<forall>q\<in>set posts. \<forall>s. post_text q = Some s \<and> s \<noteq> [] \<longrightarrow> post_score q s \<le> b))
     \<and> (\<forall>rep b. title_loop posts (None, - 1) = Inr (rep, b)
            \<and> (rep = None \<or> (\<exists>r. rep = Some r \<and> 100 < length r)) \<longrightarrow>
          generate_topic_title env posts keywords =
            (if keywords \<noteq> [] then take 100 (str_title env (join_space (take 3 keywords)))
             else py_str ''Untitled Topic''))"
proof -
  let ?t = "generate_topic_title env posts keywords"
  let ?kt = "take 100 (str_title env (join_space (take 3 keywords)))"
  have kws: "[] \<notin> set keywords"
    using assms(2,3) extract_keywords_nonempty by blast
  have kt: "keywords \<noteq> [] \<Longrightarrow> ?kt \<noteq> [] \<and> length ?kt \<le> 100"
    using keyword_title_nonempty [OF assms(1) _ kws] by simp
  have exc: "(\<exists>p\<in>set posts. post_text p = None) \<longrightarrow>
      (\<exists>e. title_loop posts (None, - 1) = Inl e) \<and> ?t = py_str ''Untitled Topic''"
  proof
    assume "\<exists>p\<in>set posts. post_text p = None"
    then obtain e where "title_loop posts (None, - 1) = Inl e"
      using title_loop_raises [of posts "(None, - 1)"] by blast
    then show "(\<exists>e. title_loop posts (None, - 1) = Inl e) \<and> ?t = py_str ''Untitled Topic''"
      by (simp add: generate_topic_title_def)
  qed
  have rep: "\<forall>r b. title_loop posts (None, - 1) = Inr (Some r, b) \<and> length r \<le> 100 \<longrightarrow>
      ?t = r \<and> r \<noteq> []
      \<and> (\<exists>p\<in>set posts. post_text p = Some r \<and> post_score p r = b)
      \<and> (\<forall>q\<in>set posts. \<forall>s. post_text q = Some s \<and> s \<noteq> [] \<longrightarrow> post_score q s \<le> b)"
  proof (intro allI impI)
    fix r b
    assume a: "title_loop posts (None, - 1) = Inr (Some r, b) \<and> length r \<le> 100"
    then have run: "title_loop posts (None, - 1) = Inr (Some r, b)" and len: "length r \<le> 100"
      by simp_all
    from title_loop_best [OF run]
    have best: "\<forall>q\<in>set posts. \<forall>s. post_text q = Some s \<and> s \<noteq> [] \<longrightarrow> post_score q s \<le> b"
      and ne: "r \<noteq> []"
      and src: "\<exists>p\<in>set posts. post_text p = Some r \<and> post_score p r = b"
      by auto
    have "?t = r"
      using run len ne by (simp add: generate_topic_title_def)
    with ne src best show "?t = r \<and> r \<noteq> []
      \<and> (\<exists>p\<in>set posts. post_text p = Some r \<and> post_score p r = b)
      \<and> (\<forall>q\<in>set posts. \<forall>s. post_text q = Some s \<and> s \<noteq> [] \<longrightarrow> post_score q s \<le> b)"
      by simp
  qed
  have kw: "\<forall>rep b. title_loop posts (None, - 1) = Inr (rep, b)
            \<and> (rep = None \<or> (\<exists>r. rep = Some r \<and> 100 < length r)) \<longrightarrow>
          ?t = (if keywords \<noteq> [] then ?kt else py_str ''Untitled Topic'')"
    by (auto simp: generate_topic_title_def)
  have main: "?t \<noteq> [] \<and> length ?t \<le> 100"
  proof (cases "title_loop posts (None, - 1)")
    case (Inl e)
    then have "?t = py_str ''Untitled Topic''" by (simp add: generate_topic_title_def)
    with untitled_length show ?thesis by simp
  next
    case (Inr st)
    obtain rp b where st: "st = (rp, b)" by (cases st)
    show ?thesis
    proof (cases "\<exists>r. rp = Some r \<and> length r \<le> 100")
      case True
      then obtain r where r: "rp = Some r" "length r \<le> 100" by blast
      with rep Inr st have "?t = r \<and> r \<noteq> []" by blast
      with r show ?thesis by simp
    next
      case False
      then have "rp = None \<or> (\<exists>r. rp = Some r \<and> 100 < length r)"
        by (cases rp) (auto simp: not_le)
      with kw Inr st
      have "?t = (if keywords \<noteq> [] then ?kt else py_str ''Untitled Topic'')" by blast
      with kt untitled_length show ?thesis by (cases "keywords = []") simp_all
    qed
  qed
  from main exc rep kw show ?thesis by blast
qed

theorem topic_title_nonempty_and_bounded_witness:
  "generate_topic_title keyword_env [textless_post ''r1'']
      (extract_keywords keyword_env [py_str ''alpha beta'', py_str ''beta alpha'']) \<noteq> []
   \<and> length (generate_topic_title keyword_env [textless_post ''r1'']
      (extract_keywords keyword_env [py_str ''alpha beta'', py_str ''beta alpha''])) \<le> 100
   \<and> generate_topic_title keyword_env [textless_post ''r1'']
      (extract_keywords keyword_env [py_str ''alpha beta'', py_str ''beta alpha''])
     = py_str ''Alpha Beta''"
proof -
  have a: "\<forall>s. s \<noteq> [] \<longrightarrow> str_title keyword_env s \<noteq> []"
    by (simp add: keyword_env_def ascii_title_nonempty)
  have b: "\<forall>texts ks. tfidf_keywords keyword_env texts = Inr ks \<longrightarrow> [] \<notin> set ks"
    by (auto simp: keyword_env_def py_str_def)
  have c: "generate_topic_title keyword_env [textless_post ''r1'']
      (extract_keywords keyword_env [py_str ''alpha beta'', py_str ''beta alpha''])
     = py_str ''Alpha Beta''"
    by (simp add: generate_topic_title_def extract_keywords_def keyword_env_def
        textless_post_def post_text_def py_str_def char_defs)
  show ?thesis
    using topic_title_nonempty_and_bounded [OF a b refl,
        where posts = "[textless_post ''r1'']"
          and texts = "[py_str ''alpha beta'', py_str ''beta alpha'']"] c
    by simp
qed

lemma group_loop_noise:
  "group_loop (zip posts (replicate n (- 1))) topics k = topics"
proof (induction posts arbitrary: n)
  case Nil
  then show ?case by simp
next
  case (Cons p ps)
  then show ?case by (cases n) simp_all
qed

lemma group_noise_empty: "group_posts_by_cluster posts (replicate n (- 1)) m = []"
  by (simp add: group_posts_by_cluster_def group_loop_noise)

text \<open>
  C2 as amended. With the models loaded, when there are fewer embedded texts than the
  minimum cluster size, or the clustering algorithm raises (whether or not the embedding
  provider raised before: its failure is replaced by zero vectors), every point is
  labelled noise and \<open>cluster_posts\<close> returns the empty list: no fallback cluster, and
  the posts of the batch are in no cluster.
\<close>

theorem cluster_posts_failure_gives_no_cluster:
  assumes "is_loaded env"
    and "length (generate_embeddings env (extract_texts posts))
           < (case m of None \<Rightarrow> 5 | Some n \<Rightarrow> if n = 0 then 5 else n)
         \<or> (\<exists>e. fit_predict env (generate_embeddings env (extract_texts posts))
                   (case m of None \<Rightarrow> 5 | Some n \<Rightarrow> if n = 0 then 5 else n) = Inl e)"
  shows "cluster_posts env posts m = Inr []"
proof -
  define k where "k = (case m of None \<Rightarrow> 5 | Some n \<Rightarrow> if n = 0 then (5::nat) else n)"
  have "apply_clustering env (generate_embeddings env (extract_texts posts)) k
          = replicate (length (generate_embeddings env (extract_texts posts))) (- 1)"
    using assms(2) unfolding k_def [symmetric]
    by (auto simp: apply_clustering_def generate_embeddings_def split: sum.splits)
  then have "cluster_body env posts k = Inr []"
    by (simp add: cluster_body_def Let_def group_noise_empty)
  then show ?thesis
    using assms(1) unfolding k_def by (simp add: cluster_posts_def bindE_def Let_def)
qed

theorem cluster_posts_failure_witness:
  "is_loaded failing_env
   \<and> cluster_posts failing_env
       (map (\<lambda>i. text_post i ''hello'') [''a'', ''b'', ''c'', ''d'', ''e'']) (Some 5) = Inr []"
proof -
  have a: "is_loaded failing_env" by (simp add: failing_env_def)
  have b: "\<exists>e. fit_predict failing_env
             (generate_embeddings failing_env
               (extract_texts (map (\<lambda>i. text_post i ''hello'') [''a'', ''b'', ''c'', ''d'', ''e''])))
             (case Some 5 of None \<Rightarrow> 5 | Some n \<Rightarrow> if n = 0 then 5 else n) = Inl e"
    by (simp add: failing_env_def)
  show ?thesis
    using a cluster_posts_failure_gives_no_cluster [OF a disjI2 [OF b]] by simp
qed

text \<open>
  C2 as stated fails: with an embedding provider and a clusterer that raise on every
  call, five posts and a minimum cluster size of five give the empty list, not the
  fallback cluster with the five posts.
\<close>

theorem no_fallback_cluster_on_provider_outage:
  "cluster_posts failing_env
     (map (\<lambda>i. text_post i ''hello'') [''a'', ''b'', ''c'', ''d'', ''e'']) (Some 5) = Inr []
   \<and> cluster_posts failing_env
       (map (\<lambda>i. text_post i ''hello'') [''a'', ''b'', ''c'', ''d'', ''e'']) (Some 5)
     \<noteq> Inr [fallback_cluster
              (map (\<lambda>i. text_post i ''hello'') [''a'', ''b'', ''c'', ''d'', ''e''])]"
  by (simp add: cluster_posts_def cluster_body_def bindE_def failing_env_def text_post_def
      post_text_def py_str_def generate_embeddings_def apply_clustering_def
      group_posts_by_cluster_def Let_def)

section \<open>Properties of the ingestion\<close>











text \<open>
  C3. \<open>_update_ingest_event_flags\<close> is documented to mark the records of a run as
  processed and to link them to topics where there is one, and without a mapping it
  marks every record that it is given. With a mapping it writes only to the records of
  the mapping, and the records that \<open>process_single_post\<close> filtered out never reach it.
  In the run on the example batch the five records with \<open>hello\<close> form a topic and are
  linked to it; the record \<open>f\<close>, which is in no cluster, and the record \<open>s\<close>, which is
  filtered out as spam, are still unprocessed and without topic when the run ends.
\<close>

theorem batch_run_leaves_records_unprocessed:
  "process_and_cluster_posts_background example_env fresh_table example_batch ''a''
     = Some \<lparr>ev_processed = True, ev_topicId = Some ''topic-uuid-1''\<rparr>
   \<and> process_and_cluster_posts_background example_env fresh_table example_batch ''e''
     = Some \<lparr>ev_processed = True, ev_topicId = Some ''topic-uuid-1''\<rparr>
   \<and> process_and_cluster_posts_background example_env fresh_table example_batch ''f''
     = Some \<lparr>ev_processed = False, ev_topicId = None\<rparr>
   \<and> process_and_cluster_posts_background example_env fresh_table example_batch ''s''
     = Some \<lparr>ev_processed = False, ev_topicId = None\<rparr>
   \<and> is_spam plain_env (clean_for_classification plain_env (py_str ''ABCDEFGHIJKL''))"
  by (simp add: process_and_cluster_posts_background_def cluster_posts_background_def
      processed_posts_of_def process_single_post_def process_single_post_body_def
      example_env_def example_batch_def raw_post_def fresh_table_def post_text_def
      clean_for_classification_def is_spam_def get_text_stats_def plain_env_def
      char_defs pattern_defs cleaner_defs py_str_def Let_def replicate_two bindE_def
      cluster_posts_def cluster_body_def generate_embeddings_def apply_clustering_def
      group_posts_by_cluster_def generate_topic_metadata_def extract_keywords_def
      generate_topic_title_def post_score_def persist_topic_def create_topic_id_mapping_def
      update_ingest_event_flags_def post_ids_of_def update_linked_def update_processed_def)


section \<open>Properties of the classification endpoint\<close>



section \<open>Idempotence of the cleaners\<close>

lemma re_sub_prev:
  assumes "\<And>t. m p t = m q t"
  shows "re_sub m repl p s = re_sub m repl q s"
  by (cases s) (simp_all add: assms)

lemma re_sub_no_match:
  assumes "\<And>p t. t \<noteq> [] \<Longrightarrow> set t \<subseteq> set s \<Longrightarrow> m p t = None"
  shows "re_sub m repl prev s = s"
  using assms
proof (induction s arbitrary: prev)
  case Nil
  then show ?case by simp
next
  case (Cons c cs)
  have "m prev (c # cs) = None" by (rule Cons.prems) simp_all
  moreover have "re_sub m repl (Some c) cs = cs"
  proof (rule Cons.IH)
    fix p t
    assume "t \<noteq> []" and "set t \<subseteq> set cs"
    then show "m p t = None" using Cons.prems [of t p] by auto
  qed
  ultimately show ?case by simp
qed

lemma re_sub_filter: "re_sub (char_matcher P) (\<lambda>m. []) prev s = filter (\<lambda>c. \<not> P c) s"
  by (induction s arbitrary: prev) (simp_all add: char_matcher_def)

lemma url_pattern_none: "47 \<notin> set s \<Longrightarrow> url_pattern p s = None"
proof (rule ccontr)
  assume no: "47 \<notin> set s" and "url_pattern p s \<noteq> None"
  then obtain r1 r2 r3 where r1: "strip_prefix (py_str ''http'') s = Some r1"
    and r2: "r2 = r1 \<or> (\<exists>c. r1 = c # r2)"
    and r3: "strip_prefix (py_str ''://'') r2 = Some r3"
    by (auto simp: url_pattern_def Let_def split: option.splits list.splits if_splits)
  from r3 have "take (length (py_str ''://'')) r2 = py_str ''://''"
    by (simp add: strip_prefix_def split: if_splits)
  moreover have "47 \<in> set (py_str ''://'')" by (simp add: py_str_def)
  ultimately have "47 \<in> set (take (length (py_str ''://'')) r2)" by simp
  then have "47 \<in> set r2" by (rule in_set_takeD)
  with r2 have "47 \<in> set r1" by auto
  moreover from r1 have "r1 = drop (length (py_str ''http'')) s"
    by (auto simp: strip_prefix_def split: if_splits)
  ultimately have "47 \<in> set s" by (auto dest: in_set_dropD)
  with no show False by simp
qed

lemma email_pattern_none: "64 \<notin> set s \<Longrightarrow> email_pattern env p s = None"
proof -
  assume no: "64 \<notin> set s"
  have "nth_opt s k \<noteq> Some 64" for k
  proof
    assume "nth_opt s k = Some 64"
    then have k: "k < length s" and "s ! k = 64"
      by (auto simp: nth_opt_def split: if_splits)
    with nth_mem [OF k] have "64 \<in> set s" by simp
    with no show False by simp
  qed
  then show ?thesis by (simp add: email_pattern_def Let_def)
qed

lemma mention_pattern_none: "64 \<notin> set s \<Longrightarrow> mention_pattern env p s = None"
  by (auto simp: mention_pattern_def split: list.splits)

lemma hashtag_pattern_none: "35 \<notin> set s \<Longrightarrow> hashtag_pattern env p s = None"
  by (auto simp: hashtag_pattern_def split: list.splits)

lemma html_pattern_none: "60 \<notin> set s \<Longrightarrow> html_pattern p s = None"
  by (auto simp: html_pattern_def Let_def split: list.splits)

lemma unidecode_ascii: "\<forall>c\<in>set s. c < 128 \<Longrightarrow> unidecode env s = s"
  by (induction s) (simp_all add: unidecode_def)

lemma rep_match:
  assumes "c \<noteq> 10" and "2 \<le> run_len (\<lambda>d. d = c) cs"
  shows "remove_repeated_characters (c # cs) 2
       = c # c # remove_repeated_characters (dropWhile (\<lambda>d. d = c) cs) 2"
proof -
  let ?k = "run_len (\<lambda>d. d = c) cs"
  let ?f = "\<lambda>m. replicate 2 (hd m)"
  have m: "repeated_pattern 2 None (c # cs) = Some (Suc ?k)"
    using assms by (simp add: repeated_pattern_def)
  have d: "drop ?k cs = dropWhile (\<lambda>d. d = c) cs"
    by (simp add: run_len_def dropWhile_eq_drop)
  have "re_sub (repeated_pattern 2) ?f None (c # cs)
      = ?f (take (Suc ?k) (c # cs))
        @ re_sub (repeated_pattern 2) ?f (Some (last (take (Suc ?k) (c # cs)))) (drop ?k cs)"
    using m by simp
  moreover have "?f (take (Suc ?k) (c # cs)) = [c, c]"
    by (simp add: numeral_2_eq_2)
  moreover have "re_sub (repeated_pattern 2) ?f (Some (last (take (Suc ?k) (c # cs)))) (drop ?k cs)
      = re_sub (repeated_pattern 2) ?f None (drop ?k cs)"
    by (rule re_sub_prev) (simp add: repeated_pattern_def)
  ultimately show ?thesis
    using d by (simp add: remove_repeated_characters_def)
qed

lemma rep_nomatch:
  assumes "\<not> (c \<noteq> 10 \<and> 2 \<le> run_len (\<lambda>d. d = c) cs)"
  shows "remove_repeated_characters (c # cs) 2 = c # remove_repeated_characters cs 2"
proof -
  let ?f = "\<lambda>m. replicate 2 (hd m)"
  have m: "repeated_pattern 2 None (c # cs) = None"
    using assms by (auto simp: repeated_pattern_def)
  have "re_sub (repeated_pattern 2) ?f (Some c) cs = re_sub (repeated_pattern 2) ?f None cs"
    by (rule re_sub_prev) (simp add: repeated_pattern_def)
  with m show ?thesis
    by (simp add: remove_repeated_characters_def)
qed

lemma rep_nil: "remove_repeated_characters [] 2 = []"
  by (simp add: remove_repeated_characters_def)

lemma rep_nil_eq: "r = [] \<Longrightarrow> remove_repeated_characters r 2 = []"
  by (simp add: rep_nil)

lemma run_two: "2 \<le> run_len P cs \<Longrightarrow> \<exists>x y r. cs = x # y # r \<and> P x \<and> P y"
proof (cases cs)
  case Nil
  assume "2 \<le> run_len P cs"
  with Nil show ?thesis by (simp add: run_len_def)
next
  case (Cons x r)
  assume a: "2 \<le> run_len P cs"
  show ?thesis
  proof (cases r)
    case Nil
    with Cons a show ?thesis by (simp add: run_len_def split: if_splits)
  next
    case (Cons y r')
    with \<open>cs = x # r\<close> a show ?thesis by (simp add: run_len_def split: if_splits)
  qed
qed

lemma rep_hd:
  "s \<noteq> [] \<Longrightarrow> remove_repeated_characters s 2 \<noteq> [] \<and> hd (remove_repeated_characters s 2) = hd s"
proof (cases s)
  case Nil
  assume "s \<noteq> []"
  with Nil show ?thesis by simp
next
  case (Cons c cs)
  show ?thesis
  proof (cases "c \<noteq> 10 \<and> 2 \<le> run_len (\<lambda>d. d = c) cs")
    case True
    with Cons rep_match [of c cs] show ?thesis by simp
  next
    case False
    with Cons rep_nomatch [of c cs] show ?thesis by simp
  qed
qed

lemma rep_pair:
  assumes "remove_repeated_characters s 2 = a # a # t"
  shows "\<exists>t'. s = a # a # t'"
proof (cases s)
  case Nil
  with assms show ?thesis by (simp add: rep_nil)
next
  case (Cons c cs)
  show ?thesis
  proof (cases "c \<noteq> 10 \<and> 2 \<le> run_len (\<lambda>d. d = c) cs")
    case True
    then obtain x y r where "cs = x # y # r" "x = c" using run_two [of "\<lambda>d. d = c" cs] by blast
    moreover from True Cons assms rep_match [of c cs] have "a = c" by simp
    ultimately show ?thesis using Cons by simp
  next
    case False
    with Cons assms rep_nomatch [of c cs]
    have ac: "a = c" and r: "remove_repeated_characters cs 2 = a # t" by simp_all
    then have "cs \<noteq> []" by (auto simp: rep_nil)
    with rep_hd [of cs] r have "hd cs = a" by simp
    with \<open>cs \<noteq> []\<close> obtain cs' where "cs = a # cs'" by (cases cs) auto
    with ac Cons show ?thesis by simp
  qed
qed

lemma triple_free_Cons:
  "triple_free r \<Longrightarrow> (\<forall>t. r = c # c # t \<longrightarrow> is_space c) \<Longrightarrow> triple_free (c # r)"
proof (cases r)
  case Nil
  then show ?thesis by simp
next
  case (Cons b r')
  assume a: "triple_free r" "\<forall>t. r = c # c # t \<longrightarrow> is_space c"
  show ?thesis
  proof (cases r')
    case Nil
    with Cons show ?thesis by simp
  next
    case (Cons b' t)
    with \<open>r = b # r'\<close> a show ?thesis by auto
  qed
qed

lemma triple_free_tl: "triple_free (a # r) \<Longrightarrow> triple_free r"
proof (cases r)
  case Nil
  then show ?thesis by simp
next
  case (Cons b r')
  assume a: "triple_free (a # r)"
  show ?thesis
  proof (cases r')
    case Nil
    with Cons show ?thesis by simp
  next
    case (Cons b' t)
    with \<open>r = b # r'\<close> a show ?thesis by simp
  qed
qed

lemma triple_free_suffix: "triple_free (xs @ ys) \<Longrightarrow> triple_free ys"
  by (induction xs) (auto dest: triple_free_tl)

lemma triple_free_prefix: "triple_free (xs @ ys) \<Longrightarrow> triple_free xs"
proof (induction xs rule: triple_free.induct)
  case (1 a b c r)
  then show ?case by simp
qed simp_all

lemma rep_set: "set (remove_repeated_characters s 2) \<subseteq> set s"
proof (induction "length s" arbitrary: s rule: less_induct)
  case less
  show ?case
  proof (cases s)
    case Nil
    then show ?thesis by (simp add: rep_nil)
  next
    case (Cons c cs)
    show ?thesis
    proof (cases "c \<noteq> 10 \<and> 2 \<le> run_len (\<lambda>d. d = c) cs")
      case True
      have "length (dropWhile (\<lambda>d. d = c) cs) < length s"
        using Cons length_dropWhile_le [of "\<lambda>d. d = c" cs] by simp
      from less [OF this] have "set (remove_repeated_characters (dropWhile (\<lambda>d. d = c) cs) 2)
          \<subseteq> set cs" using set_dropWhileD by fastforce
      with True Cons rep_match [of c cs] show ?thesis by auto
    next
      case False
      have "length cs < length s" using Cons by simp
      from less [OF this] False Cons rep_nomatch [of c cs] show ?thesis by auto
    qed
  qed
qed

lemma rep_triple_free: "triple_free (remove_repeated_characters s 2)"
proof (induction "length s" arbitrary: s rule: less_induct)
  case less
  show ?case
  proof (cases s)
    case Nil
    then show ?thesis by (simp add: rep_nil)
  next
    case (Cons c cs)
    show ?thesis
    proof (cases "c \<noteq> 10 \<and> 2 \<le> run_len (\<lambda>d. d = c) cs")
      case True
      let ?r = "dropWhile (\<lambda>d. d = c) cs"
      let ?R = "remove_repeated_characters ?r 2"
      have "length ?r < length s"
        using Cons length_dropWhile_le [of "\<lambda>d. d = c" cs] by simp
      from less [OF this] have tf: "triple_free ?R" .
      have nohd: "?R \<noteq> c # t" for t
      proof
        assume e: "?R = c # t"
        have "?r \<noteq> []"
        proof
          assume "?r = []"
          then have "?R = []" by (rule rep_nil_eq)
          with e show False by simp
        qed
        with rep_hd [of ?r] e have "hd ?r = c" by simp
        with hd_dropWhile [OF \<open>?r \<noteq> []\<close>] show False by simp
      qed
      have "triple_free (c # ?R)"
        by (rule triple_free_Cons [OF tf]) (use nohd in blast)
      then have "triple_free (c # c # ?R)"
        by (rule triple_free_Cons) (use nohd in blast)
      with True Cons rep_match [of c cs] show ?thesis by simp
    next
      case False
      have "length cs < length s" using Cons by simp
      from less [OF this] have tf: "triple_free (remove_repeated_characters cs 2)" .
      have "\<forall>t. remove_repeated_characters cs 2 = c # c # t \<longrightarrow> is_space c"
      proof (intro allI impI)
        fix t
        assume "remove_repeated_characters cs 2 = c # c # t"
        from rep_pair [OF this] obtain t' where "cs = c # c # t'" ..
        then have "2 \<le> run_len (\<lambda>d. d = c) cs" by (simp add: run_len_def)
        with False have "c = 10" by simp
        then show "is_space c" by (simp add: is_space_def)
      qed
      from triple_free_Cons [OF tf this] False Cons rep_nomatch [of c cs] show ?thesis by simp
    qed
  qed
qed


lemma ws_nil: "collapse_ws [] = []"
  by (simp add: collapse_ws_def)

lemma ws_space:
  assumes "is_space c"
  shows "collapse_ws (c # cs) = 32 # collapse_ws (dropWhile is_space cs)"
proof -
  let ?k = "run_len is_space cs"
  let ?f = "\<lambda>m::ustr. [32::nat]"
  have m: "whitespace_pattern None (c # cs) = Some (Suc ?k)"
    using assms by (simp add: whitespace_pattern_def plus_matcher_def run_len_def)
  have d: "drop ?k cs = dropWhile is_space cs"
    by (simp add: run_len_def dropWhile_eq_drop)
  have "re_sub whitespace_pattern ?f None (c # cs)
      = ?f (take (Suc ?k) (c # cs))
        @ re_sub whitespace_pattern ?f (Some (last (take (Suc ?k) (c # cs)))) (drop ?k cs)"
    using m by simp
  moreover have "re_sub whitespace_pattern ?f (Some (last (take (Suc ?k) (c # cs)))) (drop ?k cs)
      = re_sub whitespace_pattern ?f None (drop ?k cs)"
    by (rule re_sub_prev) (simp add: whitespace_pattern_def plus_matcher_def)
  ultimately show ?thesis
    using d by (simp add: collapse_ws_def)
qed

lemma ws_nonspace:
  assumes "\<not> is_space c"
  shows "collapse_ws (c # cs) = c # collapse_ws cs"
proof -
  let ?f = "\<lambda>m::ustr. [32::nat]"
  have m: "whitespace_pattern None (c # cs) = None"
    using assms by (simp add: whitespace_pattern_def plus_matcher_def run_len_def)
  have "re_sub whitespace_pattern ?f (Some c) cs = re_sub whitespace_pattern ?f None cs"
    by (rule re_sub_prev) (simp add: whitespace_pattern_def plus_matcher_def)
  with m show ?thesis
    by (simp add: collapse_ws_def)
qed

lemma ws_set: "d \<in> set (collapse_ws s) \<Longrightarrow> d = 32 \<or> (d \<in> set s \<and> \<not> is_space d)"
proof (induction "length s" arbitrary: s rule: less_induct)
  case less
  show ?case
  proof (cases s)
    case Nil
    with less.prems show ?thesis by (simp add: ws_nil)
  next
    case (Cons c cs)
    show ?thesis
    proof (cases "is_space c")
      case True
      have l: "length (dropWhile is_space cs) < length s"
        using Cons length_dropWhile_le [of is_space cs] by simp
      from less.prems True Cons ws_space [of c cs]
      have "d = 32 \<or> d \<in> set (collapse_ws (dropWhile is_space cs))" by simp
      with less.hyps [OF l] have "d = 32 \<or> (d \<in> set (dropWhile is_space cs) \<and> \<not> is_space d)"
        by blast
      then show ?thesis using Cons set_dropWhileD [of d is_space cs] by auto
    next
      case False
      have l: "length cs < length s" using Cons by simp
      from less.prems False Cons ws_nonspace [of c cs]
      have "d = c \<or> d \<in> set (collapse_ws cs)" by simp
      with less.hyps [OF l] False Cons show ?thesis by auto
    qed
  qed
qed

lemma ws_hd:
  "s \<noteq> [] \<Longrightarrow> \<not> is_space (hd s) \<Longrightarrow> collapse_ws s \<noteq> [] \<and> hd (collapse_ws s) = hd s"
  by (cases s) (simp_all add: ws_nonspace)

lemma single_spaced_Cons:
  "single_spaced r \<Longrightarrow> (r \<noteq> [] \<longrightarrow> \<not> (is_space a \<and> is_space (hd r))) \<Longrightarrow> single_spaced (a # r)"
  by (cases r) simp_all

lemma single_spaced_tl: "single_spaced (a # r) \<Longrightarrow> single_spaced r"
  by (cases r) simp_all

lemma single_spaced_suffix: "single_spaced (xs @ ys) \<Longrightarrow> single_spaced ys"
  by (induction xs) (auto dest: single_spaced_tl)

lemma single_spaced_prefix: "single_spaced (xs @ ys) \<Longrightarrow> single_spaced xs"
proof (induction xs rule: single_spaced.induct)
  case (1 a b r)
  then show ?case by simp
qed simp_all

lemma ws_single: "single_spaced (collapse_ws s)"
proof (induction "length s" arbitrary: s rule: less_induct)
  case less
  show ?case
  proof (cases s)
    case Nil
    then show ?thesis by (simp add: ws_nil)
  next
    case (Cons c cs)
    show ?thesis
    proof (cases "is_space c")
      case True
      let ?r = "dropWhile is_space cs"
      have l: "length ?r < length s"
        using Cons length_dropWhile_le [of is_space cs] by simp
      have "collapse_ws ?r \<noteq> [] \<longrightarrow> \<not> is_space (hd (collapse_ws ?r))"
      proof
        assume ne: "collapse_ws ?r \<noteq> []"
        have "?r \<noteq> []"
        proof
          assume "?r = []"
          then have "collapse_ws ?r = collapse_ws []" by (rule arg_cong)
          with ne show False by (simp add: ws_nil)
        qed
        with hd_dropWhile [OF this] ws_hd [of ?r] show "\<not> is_space (hd (collapse_ws ?r))"
          by simp
      qed
      with less [OF l] have "single_spaced (32 # collapse_ws ?r)"
        by (intro single_spaced_Cons) simp_all
      with True Cons ws_space [of c cs] show ?thesis by simp
    next
      case False
      have l: "length cs < length s" using Cons by simp
      from less [OF l] False have "single_spaced (c # collapse_ws cs)"
        by (intro single_spaced_Cons) simp_all
      with False Cons ws_nonspace [of c cs] show ?thesis by simp
    qed
  qed
qed

lemma ws_first_space: "collapse_ws s = a # t \<Longrightarrow> is_space a \<Longrightarrow> a = 32"
  using ws_set [of a s] by auto

lemma ws_pair:
  assumes "collapse_ws s = a # b # t" and "\<not> is_space a" and "\<not> is_space b"
  shows "\<exists>t'. s = a # b # t'"
proof (cases s)
  case Nil
  with assms show ?thesis by (simp add: ws_nil)
next
  case (Cons c cs)
  have c: "\<not> is_space c"
  proof
    assume "is_space c"
    with Cons assms(1) ws_space [of c cs] have "a = 32" by simp
    with assms(2) show False by (simp add: is_space_def)
  qed
  with Cons assms(1) ws_nonspace [of c cs] have ac: "a = c" and r: "collapse_ws cs = b # t"
    by simp_all
  show ?thesis
  proof (cases cs)
    case Nil
    with r show ?thesis by (simp add: ws_nil)
  next
    case (Cons c' cs')
    have c': "\<not> is_space c'"
    proof
      assume "is_space c'"
      with Cons r ws_space [of c' cs'] have "b = 32" by simp
      with assms(3) show False by (simp add: is_space_def)
    qed
    with Cons r ws_nonspace [of c' cs'] have "b = c'" by simp
    with ac Cons \<open>s = c # cs\<close> show ?thesis by simp
  qed
qed

lemma triple_free_dropWhile: "triple_free s \<Longrightarrow> triple_free (dropWhile P s)"
  by (induction s) (auto dest: triple_free_tl)

lemma ws_triple_free: "triple_free s \<Longrightarrow> triple_free (collapse_ws s)"
proof (induction "length s" arbitrary: s rule: less_induct)
  case less
  show ?case
  proof (cases s)
    case Nil
    then show ?thesis by (simp add: ws_nil)
  next
    case (Cons c cs)
    from less.prems Cons have tcs: "triple_free cs" by (auto dest: triple_free_tl)
    show ?thesis
    proof (cases "is_space c")
      case True
      let ?r = "dropWhile is_space cs"
      have l: "length ?r < length s"
        using Cons length_dropWhile_le [of is_space cs] by simp
      have "triple_free ?r" using tcs by (rule triple_free_dropWhile)
      from less.hyps [OF l this] have "triple_free (32 # collapse_ws ?r)"
        by (rule triple_free_Cons) (simp add: is_space_def)
      with True Cons ws_space [of c cs] show ?thesis by simp
    next
      case False
      have l: "length cs < length s" using Cons by simp
      have "\<forall>t. collapse_ws cs = c # c # t \<longrightarrow> is_space c"
      proof (intro allI impI)
        fix t
        assume "collapse_ws cs = c # c # t"
        from ws_pair [OF this False False] obtain t' where "cs = c # c # t'" ..
        with less.prems Cons show "is_space c" by simp
      qed
      from triple_free_Cons [OF less.hyps [OF l tcs] this] False Cons ws_nonspace [of c cs]
      show ?thesis by simp
    qed
  qed
qed

lemma strip_decomp: "\<exists>pre post. s = pre @ py_strip s @ post"
proof -
  let ?d = "dropWhile is_space s"
  have "s = takeWhile is_space s @ ?d" by simp
  moreover have "rev ?d = takeWhile is_space (rev ?d) @ dropWhile is_space (rev ?d)" by simp
  then have "?d = rev (dropWhile is_space (rev ?d)) @ rev (takeWhile is_space (rev ?d))"
    by (metis rev_append rev_rev_ident)
  ultimately have "s = takeWhile is_space s @ py_strip s @ rev (takeWhile is_space (rev ?d))"
    by (simp add: py_strip_def)
  then show ?thesis by blast
qed

lemma strip_ends:
  "py_strip s = [] \<or> (\<not> is_space (hd (py_strip s)) \<and> \<not> is_space (last (py_strip s)))"
proof (cases "py_strip s = []")
  case True
  then show ?thesis by simp
next
  case False
  let ?d = "dropWhile is_space s"
  let ?e = "dropWhile is_space (rev ?d)"
  have e: "?e \<noteq> []" using False by (simp add: py_strip_def)
  have d: "?d \<noteq> []"
  proof
    assume a: "?d = []"
    have "?e = []" unfolding a by simp
    with e show False by simp
  qed
  have "\<not> is_space (hd ?e)" using e by (rule hd_dropWhile)
  then have l: "\<not> is_space (last (py_strip s))"
    using e by (simp add: py_strip_def last_rev)
  have "rev ?d = takeWhile is_space (rev ?d) @ ?e" by simp
  then have "last (rev ?d) = last ?e" using e by (metis last_appendR)
  then have "last ?e = hd ?d" using d by (simp add: last_rev)
  moreover have "\<not> is_space (hd ?d)" using d by (rule hd_dropWhile)
  ultimately have "\<not> is_space (hd (py_strip s))"
    using e by (simp add: py_strip_def hd_rev)
  with l show ?thesis by simp
qed

lemma strip_id: "s = [] \<or> (\<not> is_space (hd s) \<and> \<not> is_space (last s)) \<Longrightarrow> py_strip s = s"
proof (cases "s = []")
  case True
  then show ?thesis by (simp add: py_strip_def)
next
  case False
  assume "s = [] \<or> (\<not> is_space (hd s) \<and> \<not> is_space (last s))"
  with False have h: "\<not> is_space (hd s)" and l: "\<not> is_space (last s)" by simp_all
  have "dropWhile is_space s = s" using h by (simp add: dropWhile_eq_self_iff)
  moreover have "dropWhile is_space (rev s) = rev s"
    using l False by (simp add: dropWhile_eq_self_iff hd_rev)
  ultimately show ?thesis by (simp add: py_strip_def)
qed


lemma rep_id: "triple_free s \<Longrightarrow> single_spaced s \<Longrightarrow> remove_repeated_characters s 2 = s"
proof (induction s)
  case Nil
  then show ?case by (simp add: rep_nil)
next
  case (Cons c cs)
  have "\<not> (c \<noteq> 10 \<and> 2 \<le> run_len (\<lambda>d. d = c) cs)"
  proof
    assume "c \<noteq> 10 \<and> 2 \<le> run_len (\<lambda>d. d = c) cs"
    then obtain r where "cs = c # c # r" using run_two [of "\<lambda>d. d = c" cs] by blast
    with Cons.prems show False by auto
  qed
  then have "remove_repeated_characters (c # cs) 2 = c # remove_repeated_characters cs 2"
    by (rule rep_nomatch)
  moreover have "remove_repeated_characters cs 2 = cs"
    using Cons.prems by (intro Cons.IH) (auto dest: triple_free_tl single_spaced_tl)
  ultimately show ?case by simp
qed

lemma ws_id:
  "single_spaced s \<Longrightarrow> \<forall>c\<in>set s. is_space c \<longrightarrow> c = 32 \<Longrightarrow> collapse_ws s = s"
proof (induction s)
  case Nil
  then show ?case by (simp add: ws_nil)
next
  case (Cons c cs)
  have ih: "collapse_ws cs = cs"
    using Cons.prems by (intro Cons.IH) (auto dest: single_spaced_tl)
  show ?case
  proof (cases "is_space c")
    case True
    with Cons.prems(2) have c: "c = 32" by simp
    have "cs = [] \<or> \<not> is_space (hd cs)"
      using Cons.prems(1) True by (cases cs) simp_all
    then have "dropWhile is_space cs = cs" by (simp add: dropWhile_eq_self_iff)
    with True c ih ws_space [of c cs] show ?thesis by simp
  next
    case False
    with ih ws_nonspace [of c cs] show ?thesis by simp
  qed
qed

lemma plain_char_facts:
  "plain_char c \<Longrightarrow>
     c < 128 \<and> \<not> special_char True c \<and> c \<noteq> 47 \<and> c \<noteq> 64 \<and> c \<noteq> 35 \<and> c \<noteq> 60
     \<and> (is_space c \<longrightarrow> c = 32)"
  by (auto simp: plain_char_def special_char_def is_ascii_alnum_def is_ascii_lower_def
      is_ascii_upper_def is_ascii_digit_def is_space_def)

lemma kept_nonspace_plain: "\<not> special_char True c \<Longrightarrow> \<not> is_space c \<Longrightarrow> plain_char c"
  by (auto simp: plain_char_def special_char_def)

lemma kept_high_space: "\<not> special_char True c \<Longrightarrow> 128 \<le> c \<Longrightarrow> is_space c"
  by (auto simp: special_char_def is_ascii_alnum_def is_ascii_lower_def
      is_ascii_upper_def is_ascii_digit_def)

lemma clean_fixes_normal_form:
  assumes a: "\<forall>s t. (\<forall>c\<in>set s. plain_char c) \<and> bs_get_text env s = Inr t \<longrightarrow> t = s"
    and b: "\<forall>s. (\<forall>c\<in>set s. plain_char c) \<longrightarrow> emoji_demojize env s = s"
    and nf: "normal_form y"
  shows "clean env y ph pm = y"
proof -
  from nf have p: "\<forall>c\<in>set y. plain_char c" and ss: "single_spaced y" and tf: "triple_free y"
    and ends: "y = [] \<or> (\<not> is_space (hd y) \<and> \<not> is_space (last y))"
    by (simp_all add: normal_form_def spaced_form_def)
  have no: "47 \<notin> set t \<and> 64 \<notin> set t \<and> 35 \<notin> set t \<and> 60 \<notin> set t" if "set t \<subseteq> set y" for t
    using that p plain_char_facts by blast
  have s1: "py_strip y = y" using ends by (rule strip_id)
  have html: "re_sub html_pattern (\<lambda>m. []) None y = y"
    by (rule re_sub_no_match) (use no html_pattern_none in blast)
  have s2: "remove_html_tags env y = y"
  proof (cases "bs_get_text env y")
    case (Inl e)
    with html show ?thesis by (simp add: remove_html_tags_def)
  next
    case (Inr t)
    with a p have "t = y" by blast
    with Inr show ?thesis by (simp add: remove_html_tags_def)
  qed
  have s3: "remove_urls y = y"
    unfolding remove_urls_def
    by (rule re_sub_no_match) (use no url_pattern_none in blast)
  have s4: "remove_emails env y = y"
    unfolding remove_emails_def
    by (rule re_sub_no_match) (use no email_pattern_none in blast)
  have s5: "remove_hashtags env y = y"
    unfolding remove_hashtags_def
    by (rule re_sub_no_match) (use no hashtag_pattern_none in blast)
  have s6: "remove_mentions env y = y"
    unfolding remove_mentions_def
    by (rule re_sub_no_match) (use no mention_pattern_none in blast)
  have s7: "replace_emojis_with_text env y = y"
    using b p by (simp add: replace_emojis_with_text_def)
  have "filter (\<lambda>c. \<not> special_char True c) y = y"
    using p plain_char_facts by (simp add: filter_id_conv)
  then have s8: "remove_special_characters y True = y"
    by (simp add: remove_special_characters_def re_sub_filter)
  have s9: "normalize_unicode env y = y"
    unfolding normalize_unicode_def
    by (rule unidecode_ascii) (use p plain_char_facts in blast)
  have s10: "remove_repeated_characters y 2 = y"
    using tf ss by (rule rep_id)
  have "collapse_ws y = y"
    by (rule ws_id [OF ss]) (use p plain_char_facts in blast)
  then have s11: "normalize_whitespace y = y"
    using s1 by (simp add: normalize_whitespace_def collapse_ws_def)
  show ?thesis
    by (simp add: clean_def Let_def s1 s2 s3 s4 s5 s6 s7 s8 s9 s10 s11)
qed

lemma strip_normal_form:
  assumes "\<forall>c\<in>set s. plain_char c" and "single_spaced s" and "triple_free s"
  shows "normal_form (py_strip s)"
proof -
  obtain pre post where d: "s = pre @ py_strip s @ post"
    using strip_decomp by blast
  have "set (py_strip s) \<subseteq> set s"
    by (subst (2) d) auto
  with assms(1) have p: "\<forall>c\<in>set (py_strip s). plain_char c" by blast
  have "single_spaced (pre @ py_strip s @ post)" using assms(2) d by simp
  then have ss: "single_spaced (py_strip s)"
    using single_spaced_suffix single_spaced_prefix by blast
  have "triple_free (pre @ py_strip s @ post)" using assms(3) d by simp
  then have tf: "triple_free (py_strip s)"
    using triple_free_suffix triple_free_prefix by blast
  from p ss tf strip_ends [of s] show ?thesis
    by (simp add: normal_form_def spaced_form_def)
qed

lemma clean_normal_form:
  assumes c: "\<forall>c. 128 \<le> c \<and> is_space c \<longrightarrow> (\<forall>d\<in>set (unidecode_table env c). \<not> special_char True d)"
  shows "normal_form (clean env x ph pm)"
proof (cases "x = []")
  case True
  then show ?thesis by (simp add: clean_def normal_form_def spaced_form_def)
next
  case False
  define z where "z = replace_emojis_with_text env
     (let cleaned = remove_emails env (remove_urls (remove_html_tags env (py_strip x)));
          cleaned = (if \<not> ph then remove_hashtags env cleaned else cleaned)
      in if \<not> pm then remove_mentions env cleaned else cleaned)"
  define u where "u = normalize_unicode env (remove_special_characters z True)"
  define v where "v = remove_repeated_characters u 2"
  define w where "w = collapse_ws v"
  have cl: "clean env x ph pm = py_strip (py_strip w)"
    using False
    by (simp add: clean_def Let_def z_def u_def v_def w_def normalize_whitespace_def
        collapse_ws_def)
  have ku: "\<not> special_char True d" if "d \<in> set u" for d
  proof -
    from that obtain e where e: "e \<in> set z" "\<not> special_char True e"
      and d: "d \<in> set (if e < 128 then [e] else unidecode_table env e)"
      by (auto simp: u_def normalize_unicode_def unidecode_def remove_special_characters_def
          re_sub_filter)
    show ?thesis
    proof (cases "e < 128")
      case True
      with d e show ?thesis by simp
    next
      case False
      with e kept_high_space [of e] have "128 \<le> e \<and> is_space e" by simp
      with c d False show ?thesis by auto
    qed
  qed
  have kv: "\<not> special_char True d" if "d \<in> set v" for d
    using that ku rep_set [of u] by (auto simp: v_def)
  have tv: "triple_free v" unfolding v_def by (rule rep_triple_free)
  have pw: "\<forall>d\<in>set w. plain_char d"
  proof
    fix d
    assume "d \<in> set w"
    then have "d = 32 \<or> (d \<in> set v \<and> \<not> is_space d)"
      unfolding w_def by (rule ws_set)
    then show "plain_char d"
      using kv kept_nonspace_plain by (auto simp: plain_char_def)
  qed
  have sw: "single_spaced w" unfolding w_def by (rule ws_single)
  have tw: "triple_free w" unfolding w_def using tv by (rule ws_triple_free)
  have n1: "normal_form (py_strip w)" using pw sw tw by (rule strip_normal_form)
  then have "py_strip (py_strip w) = py_strip w"
    by (intro strip_id) (simp add: normal_form_def spaced_form_def)
  with n1 cl show ?thesis by simp
qed

lemma rep_last: "s \<noteq> [] \<Longrightarrow> last (remove_repeated_characters s 2) = last s"
proof (induction "length s" arbitrary: s rule: less_induct)
  case less
  then obtain c cs where s: "s = c # cs" by (cases s) auto
  show ?case
  proof (cases "c \<noteq> 10 \<and> 2 \<le> run_len (\<lambda>d. d = c) cs")
    case True
    let ?r = "dropWhile (\<lambda>d. d = c) cs"
    have eq: "remove_repeated_characters s 2 = c # c # remove_repeated_characters ?r 2"
      using True s rep_match [of c cs] by simp
    have cs: "cs = takeWhile (\<lambda>d. d = c) cs @ ?r" by simp
    from True obtain r where "cs = c # c # r" using run_two [of "\<lambda>d. d = c" cs] by blast
    then have t: "takeWhile (\<lambda>d. d = c) cs \<noteq> []" by simp
    show ?thesis
    proof (cases "?r = []")
      case True
      then have r0: "remove_repeated_characters ?r 2 = []" by (rule rep_nil_eq)
      have "last cs = last (takeWhile (\<lambda>d. d = c) cs)"
        using cs True by (metis append_Nil2)
      moreover have "last (takeWhile (\<lambda>d. d = c) cs) \<in> set (takeWhile (\<lambda>d. d = c) cs)"
        using t by (rule last_in_set)
      then have "last (takeWhile (\<lambda>d. d = c) cs) = c" by (auto dest: set_takeWhileD)
      ultimately have "last s = c" using s \<open>cs = c # c # r\<close> by simp
      with eq r0 show ?thesis by simp
    next
      case False
      have l: "length ?r < length s"
        using s length_dropWhile_le [of "\<lambda>d. d = c" cs] by simp
      from less.hyps [OF l False] have "last (remove_repeated_characters ?r 2) = last ?r" .
      moreover have "remove_repeated_characters ?r 2 \<noteq> []" using rep_hd [OF False] by simp
      moreover have "last cs = last ?r" using cs False by (metis last_appendR)
      ultimately show ?thesis using eq s \<open>cs = c # c # r\<close> by simp
    qed
  next
    case False
    then have eq: "remove_repeated_characters s 2 = c # remove_repeated_characters cs 2"
      using s rep_nomatch [of c cs] by simp
    show ?thesis
    proof (cases "cs = []")
      case True
      with eq s show ?thesis by (simp add: rep_nil)
    next
      case False
      have l: "length cs < length s" using s by simp
      from less.hyps [OF l False] rep_hd [OF False] eq s False show ?thesis by simp
    qed
  qed
qed

lemma rep_single_spaced: "single_spaced s \<Longrightarrow> single_spaced (remove_repeated_characters s 2)"
proof (induction "length s" arbitrary: s rule: less_induct)
  case less
  show ?case
  proof (cases s)
    case Nil
    then show ?thesis by (simp add: rep_nil)
  next
    case (Cons c cs)
    show ?thesis
    proof (cases "c \<noteq> 10 \<and> 2 \<le> run_len (\<lambda>d. d = c) cs")
      case True
      let ?r = "dropWhile (\<lambda>d. d = c) cs"
      from True obtain r where "cs = c # c # r" using run_two [of "\<lambda>d. d = c" cs] by blast
      with less.prems Cons have c: "\<not> is_space c" by simp
      have l: "length ?r < length s"
        using Cons length_dropWhile_le [of "\<lambda>d. d = c" cs] by simp
      have "cs = takeWhile (\<lambda>d. d = c) cs @ ?r" by simp
      then have "s = (c # takeWhile (\<lambda>d. d = c) cs) @ ?r" using Cons by simp
      with less.prems have "single_spaced ?r" using single_spaced_suffix by metis
      from less.hyps [OF l this] c
      have "single_spaced (c # c # remove_repeated_characters ?r 2)"
        by (intro single_spaced_Cons) simp_all
      with True Cons rep_match [of c cs] show ?thesis by simp
    next
      case False
      have l: "length cs < length s" using Cons by simp
      have sc: "single_spaced cs" using less.prems Cons by (auto dest: single_spaced_tl)
      have "remove_repeated_characters cs 2 \<noteq> [] \<longrightarrow>
          \<not> (is_space c \<and> is_space (hd (remove_repeated_characters cs 2)))"
      proof
        assume "remove_repeated_characters cs 2 \<noteq> []"
        then have ne: "cs \<noteq> []" by (auto simp: rep_nil)
        then obtain d ds where "cs = d # ds" by (cases cs) auto
        with less.prems Cons have "\<not> (is_space c \<and> is_space (hd cs))" by simp
        with rep_hd [OF ne] show "\<not> (is_space c \<and> is_space (hd (remove_repeated_characters cs 2)))"
          by simp
      qed
      with less.hyps [OF l sc] have "single_spaced (c # remove_repeated_characters cs 2)"
        by (intro single_spaced_Cons)
      with False Cons rep_nomatch [of c cs] show ?thesis by simp
    qed
  qed
qed

lemma strip_spaced_form:
  assumes "\<forall>c\<in>set s. plain_char c" and "single_spaced s"
  shows "spaced_form (py_strip s)"
proof -
  obtain pre post where d: "s = pre @ py_strip s @ post"
    using strip_decomp by blast
  have "set (py_strip s) \<subseteq> set s"
    by (subst (2) d) auto
  with assms(1) have p: "\<forall>c\<in>set (py_strip s). plain_char c" by blast
  have "single_spaced (pre @ py_strip s @ post)" using assms(2) d by simp
  then have ss: "single_spaced (py_strip s)"
    using single_spaced_suffix single_spaced_prefix by blast
  from p ss strip_ends [of s] show ?thesis
    by (simp add: spaced_form_def)
qed

lemma classification_spaced_form: "spaced_form (clean_for_classification env x)"
proof (cases "x = []")
  case True
  then show ?thesis by (simp add: clean_for_classification_def spaced_form_def)
next
  case False
  define v where "v = remove_special_characters (remove_repeated_characters
      (normalize_unicode env (replace_emojis_with_text env
         (remove_urls (remove_html_tags env (py_strip x))))) 2) True"
  define w where "w = collapse_ws v"
  have cl: "clean_for_classification env x = py_strip w"
    using False
    by (simp add: clean_for_classification_def Let_def v_def w_def normalize_whitespace_def
        collapse_ws_def)
  have kv: "\<not> special_char True d" if "d \<in> set v" for d
    using that by (auto simp: v_def remove_special_characters_def re_sub_filter)
  have pw: "\<forall>d\<in>set w. plain_char d"
  proof
    fix d
    assume "d \<in> set w"
    then have "d = 32 \<or> (d \<in> set v \<and> \<not> is_space d)"
      unfolding w_def by (rule ws_set)
    then show "plain_char d"
      using kv kept_nonspace_plain by (auto simp: plain_char_def)
  qed
  have sw: "single_spaced w" unfolding w_def by (rule ws_single)
  from pw sw have "spaced_form (py_strip w)" by (rule strip_spaced_form)
  with cl show ?thesis by simp
qed

lemma classification_on_spaced_form:
  assumes a: "\<forall>s t. (\<forall>c\<in>set s. plain_char c) \<and> bs_get_text env s = Inr t \<longrightarrow> t = s"
    and b: "\<forall>s. (\<forall>c\<in>set s. plain_char c) \<longrightarrow> emoji_demojize env s = s"
    and sf: "spaced_form y"
  shows "clean_for_classification env y = remove_repeated_characters y 2
       \<and> normal_form (remove_repeated_characters y 2)"
proof (cases "y = []")
  case True
  then show ?thesis
    by (simp add: clean_for_classification_def rep_nil normal_form_def spaced_form_def)
next
  case False
  let ?r = "remove_repeated_characters y 2"
  from sf have p: "\<forall>c\<in>set y. plain_char c" and ss: "single_spaced y"
    and ends: "\<not> is_space (hd y) \<and> \<not> is_space (last y)"
    using False by (simp_all add: spaced_form_def)
  have no: "47 \<notin> set t \<and> 60 \<notin> set t" if "set t \<subseteq> set y" for t
    using that p plain_char_facts by blast
  have s1: "py_strip y = y" using ends by (intro strip_id) simp
  have html: "re_sub html_pattern (\<lambda>m. []) None y = y"
    by (rule re_sub_no_match) (use no html_pattern_none in blast)
  have s2: "remove_html_tags env y = y"
  proof (cases "bs_get_text env y")
    case (Inl e)
    with html show ?thesis by (simp add: remove_html_tags_def)
  next
    case (Inr t)
    with a p have "t = y" by blast
    with Inr show ?thesis by (simp add: remove_html_tags_def)
  qed
  have s3: "remove_urls y = y"
    unfolding remove_urls_def
    by (rule re_sub_no_match) (use no url_pattern_none in blast)
  have s4: "replace_emojis_with_text env y = y"
    using b p by (simp add: replace_emojis_with_text_def)
  have s5: "normalize_unicode env y = y"
    unfolding normalize_unicode_def
    by (rule unidecode_ascii) (use p plain_char_facts in blast)
  have pr: "\<forall>c\<in>set ?r. plain_char c" using p rep_set [of y] by blast
  have "filter (\<lambda>c. \<not> special_char True c) ?r = ?r"
    using pr plain_char_facts by (simp add: filter_id_conv)
  then have s6: "remove_special_characters ?r True = ?r"
    by (simp add: remove_special_characters_def re_sub_filter)
  have sr: "single_spaced ?r" using ss by (rule rep_single_spaced)
  have er: "?r \<noteq> [] \<and> \<not> is_space (hd ?r) \<and> \<not> is_space (last ?r)"
    using rep_hd [OF False] rep_last [OF False] ends by simp
  have "collapse_ws ?r = ?r"
    by (rule ws_id [OF sr]) (use pr plain_char_facts in blast)
  moreover have "py_strip ?r = ?r" using er by (intro strip_id) simp
  ultimately have s7: "normalize_whitespace ?r = ?r"
    by (simp add: normalize_whitespace_def collapse_ws_def)
  have c: "clean_for_classification env y = ?r"
    using False by (simp add: clean_for_classification_def Let_def s1 s2 s3 s4 s5 s6 s7)
  have "normal_form ?r"
    using pr sr er rep_triple_free [of y] by (simp add: normal_form_def spaced_form_def)
  with c show ?thesis by simp
qed

text \<open>
  C8 as amended. When Beautiful Soup and \<open>emoji\<close> return text of ASCII letters, digits,
  spaces and the punctuation \<open>.,!?;:\<close> unchanged, and \<open>unidecode\<close> transliterates
  whitespace to characters that the cleaner keeps: \<open>clean\<close> is idempotent; a second
  application of \<open>clean_for_classification\<close> does nothing but collapse the runs of
  three or more equal characters that the first one left, and its result is a fixed
  point, so that the third application returns what the second returned.
\<close>

theorem cleaning_idempotence:
  assumes "\<forall>s t. (\<forall>c\<in>set s. plain_char c) \<and> bs_get_text env s = Inr t \<longrightarrow> t = s"
    and "\<forall>s. (\<forall>c\<in>set s. plain_char c) \<longrightarrow> emoji_demojize env s = s"
    and "\<forall>c. 128 \<le> c \<and> is_space c \<longrightarrow> (\<forall>d\<in>set (unidecode_table env c). \<not> special_char True d)"
  shows "clean env (clean env x ph pm) ph pm = clean env x ph pm
     \<and> clean_for_classification env (clean_for_classification env x)
         = remove_repeated_characters (clean_for_classification env x) 2
     \<and> clean_for_classification env
         (clean_for_classification env (clean_for_classification env x))
         = clean_for_classification env (clean_for_classification env x)"
proof -
  have one: "clean env (clean env x ph pm) ph pm = clean env x ph pm"
    using assms(1,2) clean_normal_form [OF assms(3)] by (rule clean_fixes_normal_form)
  let ?y = "clean_for_classification env x"
  from classification_on_spaced_form [OF assms(1,2) classification_spaced_form [of env x]]
  have two: "clean_for_classification env ?y = remove_repeated_characters ?y 2"
    and nf: "normal_form (remove_repeated_characters ?y 2)" by simp_all
  from nf have "spaced_form (remove_repeated_characters ?y 2)"
    and "triple_free (remove_repeated_characters ?y 2)"
    and "single_spaced (remove_repeated_characters ?y 2)"
    by (simp_all add: normal_form_def spaced_form_def)
  with classification_on_spaced_form [OF assms(1,2), of "remove_repeated_characters ?y 2"] rep_id
  have "clean_for_classification env (remove_repeated_characters ?y 2)
      = remove_repeated_characters ?y 2" by simp
  with one two show ?thesis by simp
qed

theorem cleaning_idempotence_witness:
  "clean plain_env (clean plain_env (py_str ''  Sooo   goood!!! '') True False) True False
     = clean plain_env (py_str ''  Sooo   goood!!! '') True False
   \<and> clean plain_env (py_str ''  Sooo   goood!!! '') True False = py_str ''Soo good!!''
   \<and> clean_for_classification plain_env
       (clean_for_classification plain_env (clean_for_classification plain_env (py_str ''a-a-a'')))
     = clean_for_classification plain_env (clean_for_classification plain_env (py_str ''a-a-a''))"
proof -
  have a: "\<forall>s t. (\<forall>c\<in>set s. plain_char c) \<and> bs_get_text plain_env s = Inr t \<longrightarrow> t = s"
    by (simp add: plain_env_def)
  have b: "\<forall>s. (\<forall>c\<in>set s. plain_char c) \<longrightarrow> emoji_demojize plain_env s = s"
    by (simp add: plain_env_def)
  have c: "\<forall>c. 128 \<le> c \<and> is_space c \<longrightarrow>
      (\<forall>d\<in>set (unidecode_table plain_env c). \<not> special_char True d)"
    by (simp add: plain_env_def)
  have v: "clean plain_env (py_str ''  Sooo   goood!!! '') True False = py_str ''Soo good!!''"
    by (simp add: clean_def plain_env_def char_defs pattern_defs cleaner_defs py_str_def
        Let_def replicate_two)
  have i: "clean plain_env (clean plain_env (py_str ''  Sooo   goood!!! '') True False) True False
     = clean plain_env (py_str ''  Sooo   goood!!! '') True False"
    using cleaning_idempotence [OF a b c, of "py_str ''  Sooo   goood!!! ''" True False]
    by (rule conjunct1)
  have j: "clean_for_classification plain_env
       (clean_for_classification plain_env (clean_for_classification plain_env (py_str ''a-a-a'')))
     = clean_for_classification plain_env (clean_for_classification plain_env (py_str ''a-a-a''))"
    using cleaning_idempotence [OF a b c, of "py_str ''a-a-a''" True False]
    by blast
  from i v j show ?thesis by blast
qed

text \<open>
  C8 as stated fails for \<open>clean_for_classification\<close>, the cleaner that the routers apply
  before \<open>is_spam\<close>: it collapses runs before it strips the special characters, so on
  \<open>a-a-a\<close> it returns \<open>aaa\<close>, and \<open>aa\<close> when it is applied to that result.
\<close>

theorem classification_cleaning_not_idempotent:
  "clean_for_classification plain_env (py_str ''a-a-a'') = py_str ''aaa''
   \<and> clean_for_classification plain_env (clean_for_classification plain_env (py_str ''a-a-a''))
       = py_str ''aa''
   \<and> clean_for_classification plain_env (clean_for_classification plain_env (py_str ''a-a-a''))
       \<noteq> clean_for_classification plain_env (py_str ''a-a-a'')"
proof -
  have a: "clean_for_classification plain_env (py_str ''a-a-a'') = py_str ''aaa''"
    by (simp add: clean_for_classification_def plain_env_def char_defs pattern_defs
        cleaner_defs py_str_def Let_def replicate_two)
  have b: "clean_for_classification plain_env (py_str ''aaa'') = py_str ''aa''"
    by (simp add: clean_for_classification_def plain_env_def char_defs pattern_defs
        cleaner_defs py_str_def Let_def replicate_two)
  from a b show ?thesis by (simp add: py_str_def)
qed

end
